theory Spec2Isabelle
  imports Complex_Main
begin

section \<open>Scalars, vectors and matrices\<close>

text \<open>
  The solver of \<^verbatim>\<open>src/core/solvers/kkt.cpp\<close> computes with \<^verbatim>\<open>double\<close>. Rounding and
  infinities are not modelled: a finite double is a \<^typ>\<open>real\<close>. The two regularization
  values \<^verbatim>\<open>xreg_\<close>, \<^verbatim>\<open>ureg_\<close> and the \<^verbatim>\<open>reginit\<close> argument are the only numbers the code
  tests with \<^verbatim>\<open>std::isnan\<close>; they are of type \<open>dbl\<close>, a real or NaN, with the IEEE rules
  for NaN: arithmetic on NaN gives NaN and every comparison with NaN is false.
\<close>

datatype dbl = NaN | Val real

fun isnan :: "dbl \<Rightarrow> bool" where
  "isnan NaN = True"
| "isnan (Val r) = False"

fun dbl_times :: "dbl \<Rightarrow> real \<Rightarrow> dbl" where
  "dbl_times NaN y = NaN"
| "dbl_times (Val r) y = Val (r * y)"

fun dbl_divide :: "dbl \<Rightarrow> real \<Rightarrow> dbl" where
  "dbl_divide NaN y = NaN"
| "dbl_divide (Val r) y = Val (r / y)"

fun dbl_greater :: "dbl \<Rightarrow> real \<Rightarrow> bool" where
  "dbl_greater NaN y = False"
| "dbl_greater (Val r) y = (r > y)"

fun dbl_less :: "dbl \<Rightarrow> real \<Rightarrow> bool" where
  "dbl_less NaN y = False"
| "dbl_less (Val r) y = (r < y)"

fun dbl_equal :: "dbl \<Rightarrow> real \<Rightarrow> bool" where
  "dbl_equal NaN y = False"
| "dbl_equal (Val r) y = (r = y)"

text \<open>
  A failure is either a C string thrown with \<^verbatim>\<open>throw\<close> (the only exceptions the
  \<^verbatim>\<open>catch (const char* msg)\<close> blocks of \<^verbatim>\<open>solve\<close> catch), recorded with the state of the
  solver at the throw, since what was assigned before the throw stays assigned; or an
  abort: a failed Eigen assertion (a block or segment out of range, operands of
  different sizes) or an index outside a \<^verbatim>\<open>std::vector\<close>, after which nothing runs.
\<close>

datatype 's error = Thrown string 's | Abort

definition bindE :: "'e + 'a \<Rightarrow> ('a \<Rightarrow> 'e + 'b) \<Rightarrow> 'e + 'b" where
  "bindE m f = (case m of Inl e \<Rightarrow> Inl e | Inr x \<Rightarrow> f x)"

definition nth_chk :: "'a list \<Rightarrow> nat \<Rightarrow> 's error + 'a" where
  "nth_chk ys i = (if i < length ys then Inr (ys ! i) else Inl Abort)"

definition update_chk :: "'a list \<Rightarrow> nat \<Rightarrow> 'a \<Rightarrow> 's error + 'a list" where
  "update_chk ys i y = (if i < length ys then Inr (ys[i := y]) else Inl Abort)"

definition back_chk :: "'a list \<Rightarrow> 's error + 'a" where
  "back_chk ys = (if ys = [] then Inl Abort else Inr (last ys))"

definition set_back :: "'a list \<Rightarrow> 'a \<Rightarrow> 's error + 'a list" where
  "set_back ys y = (if ys = [] then Inl Abort else Inr (ys[length ys - 1 := y]))"

text \<open>\<^verbatim>\<open>for (t = t0; t < T; ++t) body\<close>, the body a function of \<open>t\<close> on what the loop assigns.\<close>

function for_loop :: "nat \<Rightarrow> nat \<Rightarrow> (nat \<Rightarrow> 'a \<Rightarrow> 'e + 'a) \<Rightarrow> 'a \<Rightarrow> 'e + 'a" where
  "for_loop t T body a =
     (if t < T
      then (case body t a of Inl e \<Rightarrow> Inl e | Inr a' \<Rightarrow> for_loop (t + 1) T body a')
      else Inr a)"
  by pat_completeness auto
termination
  by (relation "measure (\<lambda>(t, T, body, a). T - t)") auto

declare for_loop.simps [simp del]

subsection \<open>Eigen::VectorXd\<close>

type_synonym vec = "real list"

definition vec_scale :: "real \<Rightarrow> vec \<Rightarrow> vec" where
  "vec_scale a v = map (\<lambda>x. a * x) v"

definition vec_neg :: "vec \<Rightarrow> vec" where
  "vec_neg v = map uminus v"

definition vec_add :: "vec \<Rightarrow> vec \<Rightarrow> 's error + vec" where
  "vec_add v w = (if length v = length w then Inr (map2 (+) v w) else Inl Abort)"

definition vec_sub :: "vec \<Rightarrow> vec \<Rightarrow> 's error + vec" where
  "vec_sub v w = (if length v = length w then Inr (map2 (-) v w) else Inl Abort)"

definition dot :: "vec \<Rightarrow> vec \<Rightarrow> 's error + real" where
  "dot v w = (if length v = length w then Inr (sum_list (map2 (*) v w)) else Inl Abort)"

definition squaredNorm :: "vec \<Rightarrow> real" where
  "squaredNorm v = sum_list (map (\<lambda>x. x * x) v)"

text \<open>\<^verbatim>\<open>v.segment(i, n)\<close> read, and \<^verbatim>\<open>v.segment(i, n) = w\<close>.\<close>

definition segment :: "vec \<Rightarrow> nat \<Rightarrow> nat \<Rightarrow> 's error + vec" where
  "segment v i n = (if i + n \<le> length v then Inr (take n (drop i v)) else Inl Abort)"

definition set_segment :: "vec \<Rightarrow> nat \<Rightarrow> nat \<Rightarrow> vec \<Rightarrow> 's error + vec" where
  "set_segment v i n w =
     (if i + n \<le> length v \<and> length w = n
      then Inr (map (\<lambda>k. if i \<le> k \<and> k < i + n then w ! (k - i) else v ! k) [0..<length v])
      else Inl Abort)"

subsection \<open>Eigen::MatrixXd\<close>

text \<open>A dense matrix: its dimensions and its coefficients \<^verbatim>\<open>M(i, j)\<close>.\<close>

record mat =
  mrows :: nat
  mcols :: nat
  mcoeff :: "nat \<Rightarrow> nat \<Rightarrow> real"

definition mat_zero :: "nat \<Rightarrow> nat \<Rightarrow> mat" where
  "mat_zero p q = \<lparr>mrows = p, mcols = q, mcoeff = (\<lambda>i j. 0)\<rparr>"

definition mat_identity :: "nat \<Rightarrow> nat \<Rightarrow> mat" where
  "mat_identity p q = \<lparr>mrows = p, mcols = q, mcoeff = (\<lambda>i j. if i = j then 1 else 0)\<rparr>"

definition mat_transpose :: "mat \<Rightarrow> mat" where
  "mat_transpose M = \<lparr>mrows = mcols M, mcols = mrows M, mcoeff = (\<lambda>i j. mcoeff M j i)\<rparr>"

definition mat_neg :: "mat \<Rightarrow> mat" where
  "mat_neg M = \<lparr>mrows = mrows M, mcols = mcols M, mcoeff = (\<lambda>i j. - mcoeff M i j)\<rparr>"

definition in_block :: "nat \<Rightarrow> nat \<Rightarrow> nat \<Rightarrow> nat \<Rightarrow> nat \<Rightarrow> nat \<Rightarrow> bool" where
  "in_block i j p q r c = (i \<le> r \<and> r < i + p \<and> j \<le> c \<and> c < j + q)"

text \<open>\<^verbatim>\<open>M.block(i, j, p, q)\<close> read, and \<^verbatim>\<open>M.block(i, j, p, q) = B\<close>.\<close>

definition block :: "mat \<Rightarrow> nat \<Rightarrow> nat \<Rightarrow> nat \<Rightarrow> nat \<Rightarrow> 's error + mat" where
  "block M i j p q =
     (if i + p \<le> mrows M \<and> j + q \<le> mcols M
      then Inr \<lparr>mrows = p, mcols = q, mcoeff = (\<lambda>r c. mcoeff M (i + r) (j + c))\<rparr>
      else Inl Abort)"

definition set_block :: "mat \<Rightarrow> nat \<Rightarrow> nat \<Rightarrow> nat \<Rightarrow> nat \<Rightarrow> mat \<Rightarrow> 's error + mat" where
  "set_block M i j p q B =
     (if i + p \<le> mrows M \<and> j + q \<le> mcols M \<and> mrows B = p \<and> mcols B = q
      then Inr (M\<lparr>mcoeff := (\<lambda>r c. if in_block i j p q r c then mcoeff B (r - i) (c - j)
                                     else mcoeff M r c)\<rparr>)
      else Inl Abort)"

text \<open>\<^verbatim>\<open>M.block(i, i, n, n).diagonal().array() += x\<close>.\<close>

definition add_diagonal :: "mat \<Rightarrow> nat \<Rightarrow> nat \<Rightarrow> real \<Rightarrow> 's error + mat" where
  "add_diagonal M i n x =
     (if i + n \<le> mrows M \<and> i + n \<le> mcols M
      then Inr (M\<lparr>mcoeff := (\<lambda>r c. if r = c \<and> i \<le> r \<and> r < i + n then mcoeff M r c + x
                                     else mcoeff M r c)\<rparr>)
      else Inl Abort)"

text \<open>The product \<^verbatim>\<open>M * v\<close> of a matrix and a vector.\<close>

definition mat_vec :: "mat \<Rightarrow> vec \<Rightarrow> 's error + vec" where
  "mat_vec M v =
     (if mcols M = length v
      then Inr (map (\<lambda>i. sum_list (map (\<lambda>j. mcoeff M i j * v ! j) [0..<mcols M])) [0..<mrows M])
      else Inl Abort)"

section \<open>The shooting problem\<close>

text \<open>
  The problem is an external collaborator: \<^verbatim>\<open>kkt.cpp\<close> only reads its stage models and
  their data and calls its two evaluations. An action model with its state manifold
  (\<^verbatim>\<open>m->get_state().get_ndx()\<close>, \<^verbatim>\<open>m->get_nu()\<close>, \<^verbatim>\<open>diff\<close>, \<^verbatim>\<open>integrate\<close>, \<^verbatim>\<open>zero\<close>), the
  derivative data of one stage, and the data of all stages
  (\<^verbatim>\<open>problem_.running_datas_\<close>, \<^verbatim>\<open>problem_.terminal_data_\<close>). The manifold operators are
  taken as total functions.
\<close>

record amodel =
  get_nx :: nat
  get_ndx :: nat
  get_nu :: nat
  state_diff :: "vec \<Rightarrow> vec \<Rightarrow> vec"
  state_integrate :: "vec \<Rightarrow> vec \<Rightarrow> vec"
  state_zero :: vec

record adata =
  get_Lx :: vec
  get_Lu :: vec
  get_Lxx :: mat
  get_Lxu :: mat
  get_Luu :: mat
  get_Fx :: mat
  get_Fu :: mat
  get_xnext :: vec

record pdata =
  running_datas :: "adata list"
  terminal_data :: adata

text \<open>
  \<^verbatim>\<open>problem_.calc(xs, us)\<close> and \<^verbatim>\<open>problem_.calcDiff(xs, us)\<close> are not in the source file:
  they are parameters. Each reads the trajectory and the data of the problem, leaves new
  data behind, and either returns the total cost or throws a C string.
\<close>

record problem =
  running_models :: "amodel list"
  terminal_model :: amodel
  get_x0 :: vec
  problem_calc :: "vec list \<Rightarrow> vec list \<Rightarrow> pdata \<Rightarrow> pdata \<times> (string + real)"
  problem_calcDiff :: "vec list \<Rightarrow> vec list \<Rightarrow> pdata \<Rightarrow> pdata \<times> (string + real)"

definition get_T :: "problem \<Rightarrow> nat" where
  "get_T P = length (running_models P)"

section \<open>The solver\<close>

text \<open>
  The members of \<^verbatim>\<open>SolverKKT\<close> and of its base \<^verbatim>\<open>SolverAbstract\<close> that \<^verbatim>\<open>kkt.cpp\<close> uses; a
  member \<^verbatim>\<open>foo_\<close> is the field \<open>foo\<close>. The field \<open>datas\<close> is the data the problem holds
  (\<^verbatim>\<open>problem_\<close> is a reference, and the calls of the solver change it). The field
  \<open>kkt_llt\<close> is the member \<^verbatim>\<open>kkt_llt_\<close>, Eigen's Cholesky factorization: its code is not
  in the source file, so the vector that \<^verbatim>\<open>compute\<close> followed by \<^verbatim>\<open>solveInPlace\<close> leaves for
  a matrix and a right-hand side is a parameter. Neither call throws, and \<^verbatim>\<open>kkt.cpp\<close> never
  reads the status of the factorization: on a matrix that is not positive definite the
  parameter gives whatever vector the failed factorization leaves.
\<close>

record solver =
  xs :: "vec list"
  us :: "vec list"
  is_feasible :: bool
  cost :: real
  stop :: real
  d :: "real \<times> real"
  xreg :: dbl
  ureg :: dbl
  steplength :: real
  dV :: real
  dVexp :: real
  th_acceptstep :: real
  th_stop :: real
  iter :: nat
  regfactor :: real
  regmin :: real
  regmax :: real
  cost_try :: real
  xs_try :: "vec list"
  us_try :: "vec list"
  dxs :: "vec list"
  dus :: "vec list"
  lambdas :: "vec list"
  nx :: nat
  ndx :: nat
  nu :: nat
  kkt :: mat
  kktref :: vec
  primaldual :: vec
  primal :: vec
  dual :: vec
  alphas :: "real list"
  th_grad :: real
  th_step :: real
  was_feasible :: bool
  kkt_primal :: vec
  kkt_llt :: "mat \<Rightarrow> vec \<Rightarrow> vec"
  datas :: pdata

type_synonym 'a result = "solver error + 'a"

subsection \<open>calc: the KKT assembler\<close>

text \<open>
  One pass of the loop of \<^verbatim>\<open>calc\<close> for stage \<open>t\<close>. The loop assigns only \<^verbatim>\<open>kkt_\<close>,
  \<^verbatim>\<open>kktref_\<close> and its two offsets \<^verbatim>\<open>ix\<close>, \<^verbatim>\<open>iu\<close>; \<open>D\<close> is the data of the problem, \<open>X\<close> is
  \<^verbatim>\<open>xs_\<close>, and \<open>n_dx\<close>, \<open>n_u\<close> are \<^verbatim>\<open>ndx_\<close>, \<^verbatim>\<open>nu_\<close>.
\<close>

definition calc_stage ::
  "problem \<Rightarrow> pdata \<Rightarrow> vec list \<Rightarrow> nat \<Rightarrow> nat \<Rightarrow> nat \<Rightarrow> nat \<Rightarrow> nat \<times> nat \<times> mat \<times> vec
     \<Rightarrow> (nat \<times> nat \<times> mat \<times> vec) result" where
  "calc_stage P D X n_dx n_u cx0 t a =
     (case a of (ix, iu, K, r) \<Rightarrow>
      let m = running_models P ! t in
      bindE (nth_chk (running_datas D) t) (\<lambda>dt.
      let ndxi = get_ndx m; nui = get_nu m in
      bindE (if t = 0
             then bindE (nth_chk X 0) (\<lambda>x.
                    set_segment r (n_dx + n_u) ndxi (state_diff m (get_x0 P) x))
             else Inr r) (\<lambda>r.
      bindE (set_block K ix ix ndxi ndxi (get_Lxx dt)) (\<lambda>K.
      bindE (set_block K ix (n_dx + iu) ndxi nui (get_Lxu dt)) (\<lambda>K.
      bindE (set_block K (n_dx + iu) ix nui ndxi (mat_transpose (get_Lxu dt))) (\<lambda>K.
      bindE (set_block K (n_dx + iu) (n_dx + iu) nui nui (get_Luu dt)) (\<lambda>K.
      bindE (set_block K (n_dx + n_u + cx0 + ix) ix ndxi ndxi (mat_neg (get_Fx dt))) (\<lambda>K.
      bindE (set_block K (n_dx + n_u + cx0 + ix) (n_dx + iu) ndxi nui (mat_neg (get_Fu dt))) (\<lambda>K.
      bindE (set_segment r ix ndxi (get_Lx dt)) (\<lambda>r.
      bindE (set_segment r (n_dx + iu) nui (get_Lu dt)) (\<lambda>r.
      bindE (nth_chk X (t + 1)) (\<lambda>x.
      bindE (set_segment r (n_dx + n_u + cx0 + ix) ndxi (state_diff m (get_xnext dt) x)) (\<lambda>r.
      Inr (ix + ndxi, iu + nui, K, r))))))))))))))"

definition calc_loop ::
  "problem \<Rightarrow> pdata \<Rightarrow> vec list \<Rightarrow> nat \<Rightarrow> nat \<Rightarrow> nat \<Rightarrow> nat \<times> nat \<times> mat \<times> vec
     \<Rightarrow> (nat \<times> nat \<times> mat \<times> vec) result" where
  "calc_loop P D X n_dx n_u cx0 a = for_loop 0 (get_T P) (calc_stage P D X n_dx n_u cx0) a"

text \<open>
  The two last statements of \<^verbatim>\<open>calc\<close>: the regularization is added to the diagonal unless
  it is NaN.
\<close>

definition add_xreg :: "solver \<Rightarrow> mat \<Rightarrow> mat result" where
  "add_xreg s K = (if \<not> isnan (xreg s)
                   then (case xreg s of Val x \<Rightarrow> add_diagonal K 0 (ndx s) x | NaN \<Rightarrow> Inr K)
                   else Inr K)"

definition add_ureg :: "solver \<Rightarrow> mat \<Rightarrow> mat result" where
  "add_ureg s K = (if \<not> isnan (ureg s)
                   then (case ureg s of Val u \<Rightarrow> add_diagonal K (ndx s) (nu s) u | NaN \<Rightarrow> Inr K)
                   else Inr K)"

text \<open>
  What \<^verbatim>\<open>calc\<close> does to \<^verbatim>\<open>kkt_\<close> and \<^verbatim>\<open>kktref_\<close> after the call of \<^verbatim>\<open>calcDiff\<close>, which left the data
  \<open>D\<close>. \<^verbatim>\<open>get_runningModels()[0]\<close> on a problem with no running model is outside the
  vector.
\<close>

definition calc_assemble :: "problem \<Rightarrow> pdata \<Rightarrow> solver \<Rightarrow> (mat \<times> vec) result" where
  "calc_assemble P D s =
     (case running_models P of
        [] \<Rightarrow> Inl Abort
      | m0 # ms \<Rightarrow>
          let cx0 = get_ndx m0; n = ndx s + nu s in
          bindE (set_block (kkt s) n 0 (ndx s) (ndx s) (mat_identity (ndx s) (ndx s))) (\<lambda>K.
          bindE (calc_loop P D (xs s) (ndx s) (nu s) cx0 (0, 0, K, kktref s)) (\<lambda>(ix, iu, K, r).
          let df = terminal_data D; ndxf = get_ndx (terminal_model P) in
          bindE (set_block K ix ix ndxf ndxf (get_Lxx df)) (\<lambda>K.
          bindE (set_segment r ix ndxf (get_Lx df)) (\<lambda>r.
          bindE (block K n 0 (ndx s) n) (\<lambda>B.
          bindE (set_block K 0 n n (ndx s) (mat_transpose B)) (\<lambda>K.
          bindE (add_xreg s K) (\<lambda>K.
          bindE (add_ureg s K) (\<lambda>K.
          Inr (K, r))))))))))"

text \<open>
  The statements of \<^verbatim>\<open>calc\<close> from the identity block to the transposed constraint block
  (lines 37 to 73), before the two tests of the regularization: the matrix and the
  vector they leave.
\<close>

definition calc_fill :: "problem \<Rightarrow> pdata \<Rightarrow> solver \<Rightarrow> (mat \<times> vec) result" where
  "calc_fill P D s =
     (case running_models P of
        [] \<Rightarrow> Inl Abort
      | m0 # ms \<Rightarrow>
          let cx0 = get_ndx m0; n = ndx s + nu s in
          bindE (set_block (kkt s) n 0 (ndx s) (ndx s) (mat_identity (ndx s) (ndx s))) (\<lambda>K.
          bindE (calc_loop P D (xs s) (ndx s) (nu s) cx0 (0, 0, K, kktref s)) (\<lambda>(ix, iu, K, r).
          let df = terminal_data D; ndxf = get_ndx (terminal_model P) in
          bindE (set_block K ix ix ndxf ndxf (get_Lxx df)) (\<lambda>K.
          bindE (set_segment r ix ndxf (get_Lx df)) (\<lambda>r.
          bindE (block K n 0 (ndx s) n) (\<lambda>B.
          bindE (set_block K 0 n n (ndx s) (mat_transpose B)) (\<lambda>K.
          Inr (K, r))))))))"

text \<open>
  \<^verbatim>\<open>calc\<close>. The cost it returns is the member \<^verbatim>\<open>cost_\<close> of the state it leaves. A throw of
  \<^verbatim>\<open>calcDiff\<close> comes before any member is assigned.
\<close>

definition calc :: "problem \<Rightarrow> solver \<Rightarrow> solver result" where
  "calc P s =
     (case problem_calcDiff P (xs s) (us s) (datas s) of
        (D, Inl msg) \<Rightarrow> Inl (Thrown msg (s\<lparr>datas := D\<rparr>))
      | (D, Inr c) \<Rightarrow>
          bindE (calc_assemble P D (s\<lparr>datas := D, cost := c\<rparr>)) (\<lambda>(K, r).
          Inr (s\<lparr>datas := D, cost := c, kkt := K, kktref := r\<rparr>)))"

subsection \<open>computePrimalDual and computeDirection\<close>

text \<open>
  \<^verbatim>\<open>computePrimalDual\<close>: the factorization of \<^verbatim>\<open>kkt_\<close>, the solve on \<^verbatim>\<open>-kktref_\<close> in place, and
  the two segments. The function has no \<^verbatim>\<open>throw\<close> and no test of the factorization.
\<close>

definition computePrimalDual :: "solver \<Rightarrow> solver result" where
  "computePrimalDual s =
     (let pd = kkt_llt s (kkt s) (vec_neg (kktref s)) in
      bindE (segment pd 0 (ndx s + nu s)) (\<lambda>p.
      bindE (segment pd (ndx s + nu s) (ndx s)) (\<lambda>q.
      Inr (s\<lparr>primaldual := pd, primal := p, dual := q\<rparr>))))"

text \<open>
  One pass of the loop of \<^verbatim>\<open>computeDirection\<close>: it assigns \<^verbatim>\<open>dxs_[t]\<close>, \<^verbatim>\<open>dus_[t]\<close>,
  \<^verbatim>\<open>lambdas_[t]\<close> and the offsets; \<open>p_x\<close>, \<open>p_u\<close> are the two blocks of \<^verbatim>\<open>primal_\<close> and \<open>q\<close> is
  \<^verbatim>\<open>dual_\<close>.
\<close>

definition direction_stage ::
  "problem \<Rightarrow> vec \<Rightarrow> vec \<Rightarrow> vec \<Rightarrow> nat \<Rightarrow> nat \<times> nat \<times> vec list \<times> vec list \<times> vec list
     \<Rightarrow> (nat \<times> nat \<times> vec list \<times> vec list \<times> vec list) result" where
  "direction_stage P p_x p_u q t a =
     (case a of (ix, iu, DX, DU, LA) \<Rightarrow>
      let ndxi = get_ndx (running_models P ! t); nui = get_nu (running_models P ! t) in
      bindE (segment p_x ix ndxi) (\<lambda>v.
      bindE (update_chk DX t v) (\<lambda>DX.
      bindE (segment p_u iu nui) (\<lambda>v.
      bindE (update_chk DU t v) (\<lambda>DU.
      bindE (segment q ix ndxi) (\<lambda>v.
      bindE (update_chk LA t v) (\<lambda>LA.
      Inr (ix + ndxi, iu + nui, DX, DU, LA))))))))"

definition computeDirection :: "problem \<Rightarrow> bool \<Rightarrow> solver \<Rightarrow> solver result" where
  "computeDirection P recalc s0 =
     bindE (if recalc then calc P s0 else Inr s0) (\<lambda>s1.
     bindE (computePrimalDual s1) (\<lambda>s.
     bindE (segment (primal s) 0 (ndx s)) (\<lambda>p_x.
     bindE (segment (primal s) (ndx s) (nu s)) (\<lambda>p_u.
     bindE (for_loop 0 (get_T P) (direction_stage P p_x p_u (dual s))
              (0, 0, dxs s, dus s, lambdas s)) (\<lambda>(ix, iu, DX, DU, LA).
     let ndxi = get_ndx (terminal_model P) in
     bindE (segment p_x ix ndxi) (\<lambda>v.
     bindE (set_back DX v) (\<lambda>DX.
     bindE (segment (dual s) ix ndxi) (\<lambda>w.
     bindE (set_back LA w) (\<lambda>LA.
     Inr (s\<lparr>dxs := DX, dus := DU, lambdas := LA\<rparr>))))))))))"

subsection \<open>expectedImprovement\<close>

definition expectedImprovement :: "solver \<Rightarrow> solver result" where
  "expectedImprovement s =
     bindE (segment (kktref s) 0 (ndx s + nu s)) (\<lambda>g.
     bindE (dot g (primal s)) (\<lambda>d0.
     bindE (block (kkt s) 0 0 (ndx s + nu s) (ndx s + nu s)) (\<lambda>H.
     bindE (mat_vec H (primal s)) (\<lambda>hp.
     bindE (dot hp (primal s)) (\<lambda>d1.
     Inr (s\<lparr>kkt_primal := hp, d := (- d0, - d1)\<rparr>))))))"

subsection \<open>stoppingCriteria\<close>

text \<open>
  One pass of the loop of \<^verbatim>\<open>stoppingCriteria\<close> on the local vector \<^verbatim>\<open>dF\<close> and the offsets;
  \<open>D\<close> is the data of the problem and \<open>LA\<close> is \<^verbatim>\<open>lambdas_\<close>. The products are
  \<^verbatim>\<open>d->get_Fx() * lambdas_[t + 1]\<close> and \<^verbatim>\<open>-d->get_Fu() * lambdas_[t + 1]\<close>, as written.
\<close>

definition stationarity_stage ::
  "problem \<Rightarrow> pdata \<Rightarrow> vec list \<Rightarrow> nat \<Rightarrow> nat \<Rightarrow> nat \<times> nat \<times> vec \<Rightarrow> (nat \<times> nat \<times> vec) result" where
  "stationarity_stage P D LA n_dx t a =
     (case a of (ix, iu, dF) \<Rightarrow>
      bindE (nth_chk (running_datas D) t) (\<lambda>dt.
      let ndxi = get_ndx (running_models P ! t); nui = get_nu (running_models P ! t) in
      bindE (nth_chk LA t) (\<lambda>l0.
      bindE (nth_chk LA (t + 1)) (\<lambda>l1.
      bindE (mat_vec (get_Fx dt) l1) (\<lambda>v.
      bindE (vec_sub l0 v) (\<lambda>w.
      bindE (set_segment dF ix ndxi w) (\<lambda>dF.
      bindE (mat_vec (mat_neg (get_Fu dt)) l1) (\<lambda>v.
      bindE (set_segment dF (n_dx + iu) nui v) (\<lambda>dF.
      Inr (ix + ndxi, iu + nui, dF))))))))))"

text \<open>The vector \<^verbatim>\<open>dF\<close> when \<^verbatim>\<open>stoppingCriteria\<close> has filled it.\<close>

definition stationarity :: "problem \<Rightarrow> solver \<Rightarrow> vec result" where
  "stationarity P s =
     bindE (for_loop 0 (get_T P) (stationarity_stage P (datas s) (lambdas s) (ndx s))
              (0, 0, replicate (ndx s + nu s) 0)) (\<lambda>(ix, iu, dF).
     bindE (back_chk (lambdas s)) (\<lambda>l.
     set_segment dF ix (get_ndx (terminal_model P)) l))"

definition stoppingCriteria :: "problem \<Rightarrow> solver \<Rightarrow> solver result" where
  "stoppingCriteria P s =
     bindE (segment (kktref s) 0 (ndx s + nu s)) (\<lambda>dL.
     bindE (stationarity P s) (\<lambda>dF.
     bindE (vec_add dL dF) (\<lambda>v.
     bindE (segment (kktref s) (ndx s + nu s) (ndx s)) (\<lambda>g.
     Inr (s\<lparr>stop := squaredNorm v + squaredNorm g\<rparr>)))))"

subsection \<open>tryStep\<close>

text \<open>
  One pass of the loop of \<^verbatim>\<open>tryStep\<close> on \<^verbatim>\<open>xs_try_\<close> and \<^verbatim>\<open>us_try_\<close>:
  \<^verbatim>\<open>integrate(xs_[t], steplength * dxs_[t], xs_try_[t + 1])\<close> and
  \<^verbatim>\<open>us_try_[t] = us_[t] + steplength * dus_[t]\<close>.
\<close>

definition tryStep_stage ::
  "problem \<Rightarrow> solver \<Rightarrow> real \<Rightarrow> nat \<Rightarrow> vec list \<times> vec list \<Rightarrow> (vec list \<times> vec list) result" where
  "tryStep_stage P s alpha t a =
     (case a of (XT, UT) \<Rightarrow>
      let m = running_models P ! t in
      bindE (nth_chk (xs s) t) (\<lambda>x.
      bindE (nth_chk (dxs s) t) (\<lambda>dx.
      bindE (update_chk XT (t + 1) (state_integrate m x (vec_scale alpha dx))) (\<lambda>XT.
      bindE (nth_chk (us s) t) (\<lambda>u.
      bindE (nth_chk (dus s) t) (\<lambda>du.
      bindE (vec_add u (vec_scale alpha du)) (\<lambda>v.
      bindE (update_chk UT t v) (\<lambda>UT.
      Inr (XT, UT)))))))))"

text \<open>\<^verbatim>\<open>tryStep\<close> returns \<^verbatim>\<open>cost_ - cost_try_\<close> and the state it leaves.\<close>

definition tryStep :: "problem \<Rightarrow> real \<Rightarrow> solver \<Rightarrow> (real \<times> solver) result" where
  "tryStep P alpha s =
     bindE (for_loop 0 (get_T P) (tryStep_stage P s alpha) (xs_try s, us_try s)) (\<lambda>(XT, UT).
     let s1 = s\<lparr>xs_try := XT, us_try := UT\<rparr> in
     (case problem_calc P XT UT (datas s) of
        (D, Inl msg) \<Rightarrow> Inl (Thrown msg (s1\<lparr>datas := D\<rparr>))
      | (D, Inr c) \<Rightarrow> Inr (cost s - c, s1\<lparr>datas := D, cost_try := c\<rparr>)))"

subsection \<open>Regularization\<close>

definition increaseRegularization :: "solver \<Rightarrow> solver" where
  "increaseRegularization s =
     (let x = dbl_times (xreg s) (regfactor s);
          x = (if dbl_greater x (regmax s) then Val (regmax s) else x)
      in s\<lparr>xreg := x, ureg := x\<rparr>)"

definition decreaseRegularization :: "solver \<Rightarrow> solver" where
  "decreaseRegularization s =
     (let x = dbl_divide (xreg s) (regfactor s);
          x = (if dbl_less x (regmin s) then Val (regmin s) else x)
      in s\<lparr>xreg := x, ureg := x\<rparr>)"

subsection \<open>solve\<close>

text \<open>
  Modelled from the spec: \<^verbatim>\<open>setCandidate\<close> is a function of the base class
  \<^verbatim>\<open>SolverAbstract\<close>, which is not in the source file. The spec gives
  \<^verbatim>\<open>setCandidate(initial states, initial controls, feasible?)\<close> and, for the line search,
  "adopt the trial trajectory as the new candidate (marked feasible)": it stores the
  two trajectories and the flag.
\<close>

definition setCandidate :: "vec list \<Rightarrow> vec list \<Rightarrow> bool \<Rightarrow> solver \<Rightarrow> solver" where
  "setCandidate xs_warm us_warm feasible s =
     s\<lparr>xs := xs_warm, us := us_warm, is_feasible := feasible\<rparr>"

text \<open>
  How a call of \<^verbatim>\<open>solve\<close> ends: it returns a boolean, or it aborts, or (the loop
  \<^verbatim>\<open>while (true)\<close> has no bound) the fuel of the model runs out. The fuel counts the calls
  of \<^verbatim>\<open>computeDirection\<close>: a run with fuel \<open>n\<close> stops in the state in which \<^verbatim>\<open>solve\<close> is about
  to make call number \<open>n + 1\<close>.
\<close>

datatype outcome = Returned bool solver | Aborted | OutOfFuel solver

datatype 'a flow = Go 'a | Halt outcome

text \<open>
  The loop \<^verbatim>\<open>while (true)\<close> around \<^verbatim>\<open>computeDirection(recalc)\<close>; it gives back the fuel that
  is left.
\<close>

fun direction_retry :: "problem \<Rightarrow> nat \<Rightarrow> bool \<Rightarrow> solver \<Rightarrow> (nat \<times> solver) flow" where
  "direction_retry P 0 recalc s = Halt (OutOfFuel s)"
| "direction_retry P (Suc n) recalc s =
     (case computeDirection P recalc s of
        Inr s' \<Rightarrow> Go (n, s')
      | Inl (Thrown msg s') \<Rightarrow>
          if dbl_equal (xreg s') (regmax s') then Halt (Returned False s')
          else direction_retry P n False s'
      | Inl Abort \<Rightarrow> Halt Aborted)"

text \<open>
  The line search: the loop over \<^verbatim>\<open>alphas_\<close>. A throw of \<^verbatim>\<open>tryStep\<close> goes on to the next
  step length; the first accepted step length ends the loop.
\<close>

fun line_search :: "problem \<Rightarrow> real list \<Rightarrow> solver \<Rightarrow> solver result" where
  "line_search P [] s = Inr s"
| "line_search P (a # as) s =
     (case tryStep P a (s\<lparr>steplength := a\<rparr>) of
        Inl (Thrown msg s') \<Rightarrow> line_search P as s'
      | Inl Abort \<Rightarrow> Inl Abort
      | Inr (dv, s') \<Rightarrow>
          let s1 = s'\<lparr>dV := dv\<rparr>;
              s2 = s1\<lparr>dVexp := steplength s1 * (fst (d s1) + 0.5 * steplength s1 * snd (d s1))\<rparr>
          in if fst (d s2) < th_grad s2 \<or> \<not> is_feasible s2
                \<or> dV s2 > th_acceptstep s2 * dVexp s2
             then Inr ((setCandidate (xs_try s2) (us_try s2) True
                          (s2\<lparr>was_feasible := is_feasible s2\<rparr>))\<lparr>cost := cost_try s2\<rparr>)
             else line_search P as s2)"

text \<open>
  After the line search: \<^verbatim>\<open>decreaseRegularization\<close> for a large step,
  \<^verbatim>\<open>increaseRegularization\<close> for the smallest one, and \<^verbatim>\<open>return false\<close> at \<^verbatim>\<open>regmax_\<close>.
  \<^verbatim>\<open>alphas_.back()\<close> of an empty vector is outside the vector.
\<close>

definition update_regularization :: "solver \<Rightarrow> solver flow" where
  "update_regularization s =
     (let s1 = (if steplength s > th_step s then decreaseRegularization s else s) in
      if alphas s1 = [] then Halt Aborted
      else if steplength s1 = last (alphas s1)
      then (let s2 = increaseRegularization s1 in
            if dbl_equal (xreg s2) (regmax s2) then Halt (Returned False s2) else Go s2)
      else Go s1)"

text \<open>
  The body of the loop \<^verbatim>\<open>for (iter_ = 0; iter_ < maxiter; ++iter_)\<close>. The callbacks are
  observers that are given the solver and are taken not to change it; they are left out.
\<close>

definition iteration :: "problem \<Rightarrow> nat \<Rightarrow> solver \<Rightarrow> (nat \<times> solver) flow" where
  "iteration P fuel s =
     (case direction_retry P fuel True s of
        Halt out \<Rightarrow> Halt out
      | Go (fuel', s1) \<Rightarrow>
     (case expectedImprovement s1 of
        Inl e \<Rightarrow> Halt Aborted
      | Inr s2 \<Rightarrow>
     (case line_search P (alphas s2) s2 of
        Inl e \<Rightarrow> Halt Aborted
      | Inr s3 \<Rightarrow>
     (case update_regularization s3 of
        Halt out \<Rightarrow> Halt out
      | Go s4 \<Rightarrow>
     (case stoppingCriteria P s4 of
        Inl e \<Rightarrow> Halt Aborted
      | Inr s5 \<Rightarrow>
          if was_feasible s5 \<and> stop s5 < th_stop s5 then Halt (Returned True s5)
          else Go (fuel', s5))))))"

text \<open>
  The loop \<^verbatim>\<open>for\<close> with \<open>k\<close> passes left, \<open>k\<close> being \<^verbatim>\<open>maxiter - iter_\<close>; the body does not
  assign \<^verbatim>\<open>iter_\<close>.
\<close>

fun solve_for :: "problem \<Rightarrow> nat \<Rightarrow> nat \<Rightarrow> solver \<Rightarrow> outcome" where
  "solve_for P fuel 0 s = Returned False s"
| "solve_for P fuel (Suc k) s =
     (case iteration P fuel s of
        Halt out \<Rightarrow> out
      | Go (fuel', s') \<Rightarrow> solve_for P fuel' k (s'\<lparr>iter := iter s' + 1\<rparr>))"

text \<open>The first lines of \<^verbatim>\<open>solve\<close>, up to the loop.\<close>

definition solve_init :: "vec list \<Rightarrow> vec list \<Rightarrow> bool \<Rightarrow> dbl \<Rightarrow> solver \<Rightarrow> solver" where
  "solve_init init_xs init_us feasible reginit s =
     (let s1 = setCandidate init_xs init_us feasible s in
      if isnan reginit then s1\<lparr>xreg := Val 0, ureg := Val 0\<rparr>
      else s1\<lparr>xreg := reginit, ureg := reginit\<rparr>)"

definition solve ::
  "problem \<Rightarrow> nat \<Rightarrow> vec list \<Rightarrow> vec list \<Rightarrow> nat \<Rightarrow> bool \<Rightarrow> dbl \<Rightarrow> solver \<Rightarrow> outcome" where
  "solve P fuel init_xs init_us maxiter feasible reginit s =
     solve_for P fuel maxiter ((solve_init init_xs init_us feasible reginit s)\<lparr>iter := 0\<rparr>)"

subsection \<open>The constructor and allocateData\<close>

text \<open>
  \<^verbatim>\<open>allocateData\<close> resizes the sequences and then assigns every entry of them, so the
  sequences it leaves are given entry by entry. The reals have no NaN: \<open>nan\<close> stands for
  the \<^verbatim>\<open>NAN\<close> that fills the trial trajectory until \<^verbatim>\<open>tryStep\<close> writes it.
\<close>

definition allocateData :: "problem \<Rightarrow> real \<Rightarrow> solver \<Rightarrow> solver" where
  "allocateData P nan s =
     (let ms = running_models P; mf = terminal_model P;
          n_x = sum_list (map get_nx ms) + get_nx mf;
          n_dx = sum_list (map get_ndx ms) + get_ndx mf;
          n_u = sum_list (map get_nu ms)
      in s\<lparr>dxs := map (\<lambda>m. replicate (get_ndx m) 0) ms @ [replicate (get_ndx mf) 0],
            dus := map (\<lambda>m. replicate (get_nu m) 0) ms,
            lambdas := map (\<lambda>m. replicate (get_ndx m) 0) ms @ [replicate (get_ndx mf) 0],
            xs_try := map (\<lambda>t. if t = 0 then get_x0 P else replicate (get_nx (ms ! t)) nan)
                        [0..<length ms] @ [state_zero mf],
            us_try := map (\<lambda>m. replicate (get_nu m) nan) ms,
            nx := n_x, ndx := n_dx, nu := n_u,
            kkt := mat_zero (2 * n_dx + n_u) (2 * n_dx + n_u),
            kktref := replicate (2 * n_dx + n_u) 0,
            primaldual := replicate (2 * n_dx + n_u) 0,
            primal := replicate (n_dx + n_u) 0,
            kkt_primal := replicate (n_dx + n_u) 0,
            dual := replicate n_dx 0\<rparr>)"

text \<open>The constructor, on the state the constructor of the base class leaves.\<close>

definition SolverKKT :: "problem \<Rightarrow> real \<Rightarrow> solver \<Rightarrow> solver" where
  "SolverKKT P nan s =
     (allocateData P nan
        (s\<lparr>regfactor := 10, regmin := 1 / 10 ^ 9, regmax := 10 ^ 9, cost_try := 0,
           th_grad := 1 / 10 ^ 12, th_step := 0.5, was_feasible := False\<rparr>))
      \<lparr>alphas := map (\<lambda>n. 1 / 2 ^ n) [0..<10]\<rparr>"

section \<open>Properties of a run and an example problem\<close>

text \<open>The regularization values and the three constants that bound and scale them.\<close>

definition regs :: "solver \<Rightarrow> dbl \<times> dbl \<times> real \<times> real \<times> real" where
  "regs s = (xreg s, ureg s, regfactor s, regmin s, regmax s)"

text \<open>Both regularization values are numbers between \<^verbatim>\<open>regmin_\<close> and \<^verbatim>\<open>regmax_\<close>.\<close>

definition reg_in_bounds :: "solver \<Rightarrow> bool" where
  "reg_in_bounds s =
     ((case xreg s of NaN \<Rightarrow> False | Val x \<Rightarrow> regmin s \<le> x \<and> x \<le> regmax s)
      \<and> (case ureg s of NaN \<Rightarrow> False | Val u \<Rightarrow> regmin s \<le> u \<and> u \<le> regmax s))"

text \<open>A result that is not a thrown C string.\<close>

definition no_throw :: "'s error + 'a \<Rightarrow> bool" where
  "no_throw m = (case m of Inl (Thrown msg s) \<Rightarrow> False | _ \<Rightarrow> True)"

text \<open>
  A property holds in the state in which a run of \<^verbatim>\<open>solve\<close> stops: where it returns, or
  where the fuel runs out, which is every state in which \<^verbatim>\<open>solve\<close> calls \<^verbatim>\<open>computeDirection\<close>.
\<close>

definition holds_at :: "(solver \<Rightarrow> bool) \<Rightarrow> outcome \<Rightarrow> bool" where
  "holds_at I out = (case out of Returned b s \<Rightarrow> I s | OutOfFuel s \<Rightarrow> I s | Aborted \<Rightarrow> True)"

text \<open>
  An example: one running stage and the terminal stage, scalar state and control, the
  dynamics \<open>x + u\<close> and the cost \<open>x\<^sup>2 + u\<^sup>2\<close> of a stage, on the Euclidean line.
\<close>

definition ex_model :: amodel where
  "ex_model = \<lparr>get_nx = 1, get_ndx = 1, get_nu = 1,
                state_diff = (\<lambda>a b. map2 (-) b a),
                state_integrate = (\<lambda>x dx. map2 (+) x dx),
                state_zero = [0]\<rparr>"

definition mat11 :: "real \<Rightarrow> mat" where
  "mat11 a = \<lparr>mrows = 1, mcols = 1, mcoeff = (\<lambda>i j. a)\<rparr>"

definition ex_data :: "real \<Rightarrow> real \<Rightarrow> adata" where
  "ex_data x u = \<lparr>get_Lx = [2 * x], get_Lu = [2 * u], get_Lxx = mat11 2, get_Lxu = mat11 0,
                   get_Luu = mat11 2, get_Fx = mat11 1, get_Fu = mat11 1, get_xnext = [x + u]\<rparr>"

definition ex_cost :: "vec list \<Rightarrow> vec list \<Rightarrow> real" where
  "ex_cost X U = hd (X ! 0) * hd (X ! 0) + hd (U ! 0) * hd (U ! 0) + hd (X ! 1) * hd (X ! 1)"

definition ex_problem :: problem where
  "ex_problem = \<lparr>running_models = [ex_model], terminal_model = ex_model, get_x0 = [1],
     problem_calc = (\<lambda>X U D. (D, Inr (ex_cost X U))),
     problem_calcDiff = (\<lambda>X U D.
        (\<lparr>running_datas = [ex_data (hd (X ! 0)) (hd (U ! 0))],
          terminal_data = ex_data (hd (X ! 1)) 0\<rparr>, Inr (ex_cost X U)))\<rparr>"

text \<open>
  The state the constructor of the base class leaves is not in the source file; the
  example takes this one, with a factorization that gives the right-hand side back.
\<close>

definition ex_base :: solver where
  "ex_base = \<lparr>xs = [[0], [0]], us = [[0]], is_feasible = False, cost = 0, stop = 0, d = (0, 0),
     xreg = NaN, ureg = NaN, steplength = 1, dV = 0, dVexp = 0, th_acceptstep = 0.1,
     th_stop = 1 / 10 ^ 9, iter = 0, regfactor = 0, regmin = 0, regmax = 0, cost_try = 0,
     xs_try = [], us_try = [], dxs = [], dus = [], lambdas = [], nx = 0, ndx = 0, nu = 0,
     kkt = mat_zero 0 0, kktref = [], primaldual = [], primal = [], dual = [], alphas = [],
     th_grad = 0, th_step = 0, was_feasible = False, kkt_primal = [],
     kkt_llt = (\<lambda>K b. b),
     datas = \<lparr>running_datas = [ex_data 0 0], terminal_data = ex_data 0 0\<rparr>\<rparr>"

definition ex_solver :: solver where
  "ex_solver = SolverKKT ex_problem 0 ex_base"

text \<open>A state for \<^verbatim>\<open>expectedImprovement\<close>: two state entries, one control entry.\<close>

definition ex_improve :: solver where
  "ex_improve = ex_base\<lparr>ndx := 2, nu := 1, kktref := [1, 2, 3, 0, 0], primal := [3, 4, 1],
     kkt := \<lparr>mrows = 5, mcols = 5, mcoeff = (\<lambda>i j. if i = j then 2 else 0)\<rparr>\<rparr>"

text \<open>
  A state for \<^verbatim>\<open>stoppingCriteria\<close> on the example problem: the gradient part of \<^verbatim>\<open>kktref_\<close> is
  \<open>(0, -1, 1)\<close>, its gap part is zero, and both multipliers are 1.
\<close>

definition ex_stop :: solver where
  "ex_stop = ex_base\<lparr>ndx := 2, nu := 1, kktref := [0, - 1, 1, 0, 0], lambdas := [[1], [1]]\<rparr>"

text \<open>
  The sizes \<^verbatim>\<open>allocateData\<close> leaves: \<^verbatim>\<open>ndx_\<close> and \<^verbatim>\<open>nu_\<close> are the sums of the dimensions of the
  stages, and the sequences of increments and multipliers have one entry for each stage.
\<close>

definition allocated :: "problem \<Rightarrow> solver \<Rightarrow> bool" where
  "allocated P s =
     (ndx s = sum_list (map get_ndx (running_models P)) + get_ndx (terminal_model P)
      \<and> nu s = sum_list (map get_nu (running_models P))
      \<and> length (dxs s) = get_T P + 1 \<and> length (dus s) = get_T P
      \<and> length (lambdas s) = get_T P + 1)"

text \<open>The example solver at the start of a solve, with regularization 5.\<close>

definition ex_start :: solver where
  "ex_start = solve_init [[1], [3]] [[1]] False (Val 5) ex_solver"

text \<open>
  Every step length of the line search that starts in state \<open>s\<close> is rejected by a throw of
  \<^verbatim>\<open>tryStep\<close>.
\<close>

fun rejects_all :: "problem \<Rightarrow> real list \<Rightarrow> solver \<Rightarrow> bool" where
  "rejects_all P [] s = True"
| "rejects_all P (a # as) s =
     (case tryStep P a (s\<lparr>steplength := a\<rparr>) of
        Inl (Thrown msg s') \<Rightarrow> rejects_all P as s'
      | Inl Abort \<Rightarrow> False
      | Inr r \<Rightarrow> False)"

text \<open>
  The example problem with a cost evaluation that throws at every trial point, and the
  example solver at the start of a solve with regularization \<open>10\<^sup>8\<close>, one step below
  \<^verbatim>\<open>regmax_\<close>.
\<close>

definition ex_reject :: problem where
  "ex_reject = ex_problem\<lparr>problem_calc := (\<lambda>X U D. (D, Inl ''out of domain''))\<rparr>"

definition ex_start_hi :: solver where
  "ex_start_hi = solve_init [[1], [3]] [[1]] False (Val (10 ^ 8)) ex_solver"

text \<open>
  The example problem with a derivative evaluation that throws, and the example solver
  with directions for \<^verbatim>\<open>tryStep\<close>.
\<close>

definition ex_throw :: problem where
  "ex_throw = ex_problem\<lparr>problem_calcDiff := (\<lambda>X U D. (D, Inl ''state out of domain''))\<rparr>"

definition ex_dir :: solver where
  "ex_dir = ex_start\<lparr>dxs := [[- 2], [- 6]], dus := [[- 2]]\<rparr>"

text \<open>
  Two runs of the assembler that start from the buffers \<open>K\<close> and \<open>K'\<close> and have reached \<open>A\<close>
  and \<open>A'\<close>: every coefficient either is the same in both, or is in both runs still the one
  of the starting buffer; the coefficients at the positions \<open>W\<close> are the same in both. The
  same for two vectors.
\<close>

definition mat_coupled :: "(nat \<Rightarrow> nat \<Rightarrow> bool) \<Rightarrow> mat \<Rightarrow> mat \<Rightarrow> mat \<Rightarrow> mat \<Rightarrow> bool" where
  "mat_coupled W K K' A A' =
     (mrows A = mrows K \<and> mcols A = mcols K \<and> mrows A' = mrows K \<and> mcols A' = mcols K
      \<and> (\<forall>i j. mcoeff A i j = mcoeff A' i j
               \<or> (mcoeff A i j = mcoeff K i j \<and> mcoeff A' i j = mcoeff K' i j \<and> \<not> W i j)))"

definition vec_coupled :: "vec \<Rightarrow> vec \<Rightarrow> vec \<Rightarrow> vec \<Rightarrow> bool" where
  "vec_coupled v v' a a' =
     (length a = length v \<and> length a' = length v
      \<and> (\<forall>k<length v. a ! k = a' ! k \<or> (a ! k = v ! k \<and> a' ! k = v' ! k)))"

section \<open>Lemmas\<close>

lemma bindE_Inr [simp]: "bindE (Inr x) f = f x" by (simp add: bindE_def)
lemma bindE_Inl [simp]: "bindE (Inl e) f = Inl e" by (simp add: bindE_def)
lemma bindE_eq_Inr: "(bindE m f = Inr y) = (\<exists>x. m = Inr x \<and> f x = Inr y)"
  by (cases m) auto
lemma bindE_eq_Inl: "(bindE m f = Inl e) = (m = Inl e \<or> (\<exists>x. m = Inr x \<and> f x = Inl e))"
  by (cases m) auto

lemma no_throw_simps [simp]: "no_throw (Inr x)" "no_throw (Inl Abort)" "\<not> no_throw (Inl (Thrown msg s))"
  by (simp_all add: no_throw_def)

lemma no_throw_bindE: "no_throw m \<Longrightarrow> (\<And>x. m = Inr x \<Longrightarrow> no_throw (f x)) \<Longrightarrow> no_throw (bindE m f)"
  by (cases m) (auto simp: no_throw_def split: error.splits)

lemma no_throw_eigen [simp]:
  "no_throw (nth_chk ys i)" "no_throw (update_chk ys i y)" "no_throw (back_chk ys)" "no_throw (set_back ys y)"
  "no_throw (vec_add v w)" "no_throw (vec_sub v w)" "no_throw (dot v w)" "no_throw (segment v i n)"
  "no_throw (set_segment v i n w)" "no_throw (block M i j p q)" "no_throw (set_block M i j p q B)"
  "no_throw (add_diagonal M i n x)" "no_throw (mat_vec M v)"
  by (simp_all add: nth_chk_def update_chk_def back_chk_def set_back_def vec_add_def vec_sub_def dot_def
      segment_def set_segment_def block_def set_block_def add_diagonal_def mat_vec_def)

lemma no_throw_for_loop: "(\<And>t a. no_throw (body t a)) \<Longrightarrow> no_throw (for_loop t T body a)"
proof (induction t T body a rule: for_loop.induct)
  case (1 t T body a)
  show ?case
  proof (cases "t < T")
    case False then show ?thesis by (simp add: for_loop.simps)
  next
    case True
    show ?thesis
    proof (cases "body t a")
      case (Inl e)
      with True "1.prems"[of t a] show ?thesis by (simp add: for_loop.simps)
    next
      case (Inr a')
      with True "1.IH"[OF True Inr] "1.prems" show ?thesis by (simp add: for_loop.simps)
    qed
  qed
qed

lemma no_throw_calc_stage: "no_throw (calc_stage P D X n_dx n_u cx0 t a)"
  unfolding calc_stage_def
  by (auto simp: Let_def split: prod.splits intro!: no_throw_bindE)

lemma no_throw_calc_assemble: "no_throw (calc_assemble P D s)"
  unfolding calc_assemble_def calc_loop_def add_xreg_def add_ureg_def
  by (auto simp: Let_def no_throw_calc_stage split: prod.splits list.splits dbl.splits intro!: no_throw_bindE no_throw_for_loop)

lemma no_throw_Thrown: "no_throw m \<Longrightarrow> m \<noteq> Inl (Thrown msg s)"
  by auto

lemma calc_regs: "calc P s = Inr s' \<Longrightarrow> regs s' = regs s"
  unfolding calc_def
  by (auto simp: regs_def bindE_eq_Inr split: prod.splits sum.splits)

lemma calc_Thrown_regs: "calc P s = Inl (Thrown msg s') \<Longrightarrow> regs s' = regs s"
  unfolding calc_def
  by (auto simp: regs_def bindE_eq_Inl no_throw_Thrown[OF no_throw_calc_assemble] split: prod.splits sum.splits)

lemma computePrimalDual_regs: "computePrimalDual s = Inr s' \<Longrightarrow> regs s' = regs s"
  unfolding computePrimalDual_def
  by (auto simp: regs_def bindE_eq_Inr Let_def)

lemma no_throw_computePrimalDual: "no_throw (computePrimalDual s)"
  unfolding computePrimalDual_def
  by (auto simp: Let_def intro!: no_throw_bindE)

lemma no_throw_direction_stage: "no_throw (direction_stage P p_x p_u q t a)"
  unfolding direction_stage_def
  by (auto simp: Let_def split: prod.splits intro!: no_throw_bindE)

lemma computeDirection_regs: "computeDirection P recalc s = Inr s' \<Longrightarrow> regs s' = regs s"
  unfolding computeDirection_def
  by (auto simp: bindE_eq_Inr Let_def regs_def dest!: calc_regs computePrimalDual_regs split: prod.splits if_splits)


lemma computeDirection_Thrown_regs:
  assumes "computeDirection P recalc s = Inl (Thrown msg s')"
  shows "regs s' = regs s"
proof -
  obtain s1 where s1: "(if recalc then calc P s else Inr s) = Inr s1 \<or> (if recalc then calc P s else Inr s) = Inl (Thrown msg s')"
    and r1: "(if recalc then calc P s else Inr s) = Inr s1 \<longrightarrow> regs s1 = regs s"
    using assms unfolding computeDirection_def
    by (cases "if recalc then calc P s else Inr s") (auto dest: calc_regs split: if_splits)
  show ?thesis
  proof (cases "if recalc then calc P s else Inr s")
    case (Inl e)
    with assms have "calc P s = Inl (Thrown msg s')"
      unfolding computeDirection_def by (auto split: if_splits)
    then show ?thesis by (rule calc_Thrown_regs)
  next
    case (Inr s1)
    then have r: "regs s1 = regs s" by (auto dest: calc_regs split: if_splits)
    show ?thesis
    proof (cases "computePrimalDual s1")
      case (Inl e)
      with Inr assms have "computePrimalDual s1 = Inl (Thrown msg s')"
        unfolding computeDirection_def by simp
      with no_throw_computePrimalDual[of s1] show ?thesis by simp
    next
      case (Inr s2)
      have "no_throw (computeDirection P recalc s)"
        unfolding computeDirection_def using \<open>(if recalc then calc P s else Inr s) = Inr s1\<close> Inr
        by (auto simp: Let_def no_throw_direction_stage split: prod.splits intro!: no_throw_bindE no_throw_for_loop)
      with assms show ?thesis by simp
    qed
  qed
qed

lemma expectedImprovement_regs: "expectedImprovement s = Inr s' \<Longrightarrow> regs s' = regs s"
  unfolding expectedImprovement_def
  by (auto simp: bindE_eq_Inr regs_def)

lemma stoppingCriteria_regs: "stoppingCriteria P s = Inr s' \<Longrightarrow> regs s' = regs s"
  unfolding stoppingCriteria_def
  by (auto simp: bindE_eq_Inr regs_def)

lemma no_throw_tryStep_stage: "no_throw (tryStep_stage P s alpha t a)"
  unfolding tryStep_stage_def
  by (auto simp: Let_def split: prod.splits intro!: no_throw_bindE)

lemma tryStep_cases:
  "tryStep P alpha s = Inl Abort
   \<or> (\<exists>XT UT D msg. tryStep P alpha s = Inl (Thrown msg (s\<lparr>xs_try := XT, us_try := UT, datas := D\<rparr>)))
   \<or> (\<exists>XT UT D c. tryStep P alpha s = Inr (cost s - c, s\<lparr>xs_try := XT, us_try := UT, datas := D, cost_try := c\<rparr>))"
proof (cases "for_loop 0 (get_T P) (tryStep_stage P s alpha) (xs_try s, us_try s)")
  case (Inl e)
  have "no_throw (for_loop 0 (get_T P) (tryStep_stage P s alpha) (xs_try s, us_try s))"
    by (rule no_throw_for_loop) (rule no_throw_tryStep_stage)
  with Inl have "e = Abort" by (cases e) auto
  with Inl show ?thesis by (simp add: tryStep_def)
next
  case (Inr p)
  obtain XT UT where p: "p = (XT, UT)" by (cases p)
  obtain D r where c: "problem_calc P XT UT (datas s) = (D, r)" by (cases "problem_calc P XT UT (datas s)")
  show ?thesis
  proof (cases r)
    case (Inl msg)
    with Inr p c have "tryStep P alpha s = Inl (Thrown msg (s\<lparr>xs_try := XT, us_try := UT, datas := D\<rparr>))"
      by (simp add: tryStep_def)
    then show ?thesis by blast
  next
    case r: (Inr c')
    with Inr p c have "tryStep P alpha s = Inr (cost s - c', s\<lparr>xs_try := XT, us_try := UT, datas := D, cost_try := c'\<rparr>)"
      by (simp add: tryStep_def)
    then show ?thesis by blast
  qed
qed

lemma tryStep_regs: "tryStep P alpha s = Inr (dv, s') \<Longrightarrow> regs s' = regs s"
  using tryStep_cases[of P alpha s] by (auto simp: regs_def)

lemma tryStep_Thrown_regs: "tryStep P alpha s = Inl (Thrown msg s') \<Longrightarrow> regs s' = regs s"
  using tryStep_cases[of P alpha s] by (auto simp: regs_def)

lemma regs_steplength [simp]: "regs (s\<lparr>steplength := a\<rparr>) = regs s"
  by (simp add: regs_def)

lemma line_search_regs: "line_search P as s = Inr s' \<Longrightarrow> regs s' = regs s"
proof (induction as arbitrary: s)
  case Nil
  then show ?case by simp
next
  case (Cons a as)
  show ?case
  proof (cases "tryStep P a (s\<lparr>steplength := a\<rparr>)")
    case (Inl e)
    show ?thesis
    proof (cases e)
      case (Thrown msg s1)
      with Inl Cons.prems have "line_search P as s1 = Inr s'" by simp
      then have "regs s' = regs s1" by (rule Cons.IH)
      moreover have "regs s1 = regs (s\<lparr>steplength := a\<rparr>)"
        using Inl Thrown by (auto dest: tryStep_Thrown_regs)
      ultimately show ?thesis by simp
    next
      case Abort
      with Inl Cons.prems show ?thesis by simp
    qed
  next
    case (Inr p)
    obtain dv s1 where p: "p = (dv, s1)" by (cases p)
    have r1: "regs s1 = regs s" using Inr p by (auto dest: tryStep_regs)
    let ?s2 = "s1\<lparr>dV := dv, dVexp := steplength s1 * (fst (d s1) + 0.5 * steplength s1 * snd (d s1))\<rparr>"
    have r2: "regs ?s2 = regs s" using r1 by (simp add: regs_def)
    from Cons.prems Inr p
    have "s' = (setCandidate (xs_try ?s2) (us_try ?s2) True (?s2\<lparr>was_feasible := is_feasible ?s2\<rparr>))\<lparr>cost := cost_try ?s2\<rparr>
        \<or> line_search P as ?s2 = Inr s'"
      by (auto simp: Let_def split: if_splits)
    then show ?thesis
    proof
      assume "s' = (setCandidate (xs_try ?s2) (us_try ?s2) True (?s2\<lparr>was_feasible := is_feasible ?s2\<rparr>))\<lparr>cost := cost_try ?s2\<rparr>"
      then show ?thesis using r1 by (simp add: regs_def setCandidate_def)
    next
      assume "line_search P as ?s2 = Inr s'"
      then have "regs s' = regs ?s2" by (rule Cons.IH)
      with r2 show ?thesis by simp
    qed
  qed
qed

lemma direction_retry_invariant:
  assumes frame: "\<And>s s'. regs s' = regs s \<Longrightarrow> I s \<Longrightarrow> I s'"
  shows "I s \<Longrightarrow> (case direction_retry P n recalc s of Go (n', s') \<Rightarrow> I s' | Halt out \<Rightarrow> holds_at I out)"
proof (induction n arbitrary: recalc s)
  case 0
  then show ?case by (simp add: holds_at_def)
next
  case (Suc n)
  show ?case
  proof (cases "computeDirection P recalc s")
    case (Inr s1)
    then have "I s1" using frame[OF computeDirection_regs[OF Inr]] Suc.prems by simp
    with Inr show ?thesis by simp
  next
    case (Inl e)
    show ?thesis
    proof (cases e)
      case Abort
      with Inl show ?thesis by (simp add: holds_at_def)
    next
      case (Thrown msg s1)
      with Inl have "I s1" using frame[OF computeDirection_Thrown_regs] Suc.prems by blast
      with Inl Thrown Suc.IH[of s1 False] show ?thesis by (simp add: holds_at_def)
    qed
  qed
qed

lemma update_regularization_invariant:
  assumes inc: "\<And>s. I s \<Longrightarrow> I (increaseRegularization s)"
      and dec: "\<And>s. I s \<Longrightarrow> I (decreaseRegularization s)"
  shows "I s \<Longrightarrow> (case update_regularization s of Go s' \<Rightarrow> I s' | Halt out \<Rightarrow> holds_at I out)"
  unfolding update_regularization_def
  by (auto simp: Let_def holds_at_def inc dec)

lemma iteration_invariant:
  assumes frame: "\<And>s s'. regs s' = regs s \<Longrightarrow> I s \<Longrightarrow> I s'"
      and inc: "\<And>s. I s \<Longrightarrow> I (increaseRegularization s)"
      and dec: "\<And>s. I s \<Longrightarrow> I (decreaseRegularization s)"
      and "I s"
  shows "case iteration P fuel s of Go (n', s') \<Rightarrow> I s' | Halt out \<Rightarrow> holds_at I out"
proof (cases "direction_retry P fuel True s")
  case (Halt out)
  with direction_retry_invariant[of I s P fuel True, OF frame \<open>I s\<close>] show ?thesis
    by (simp add: iteration_def)
next
  case (Go p)
  obtain n1 s1 where p: "p = (n1, s1)" by (cases p)
  have I1: "I s1" using direction_retry_invariant[of I s P fuel True, OF frame \<open>I s\<close>] Go p by simp
  show ?thesis
  proof (cases "expectedImprovement s1")
    case (Inl e)
    with Go p show ?thesis by (simp add: iteration_def holds_at_def)
  next
    case (Inr s2)
    have I2: "I s2" using frame[OF expectedImprovement_regs[OF Inr] I1] .
    show ?thesis
    proof (cases "line_search P (alphas s2) s2")
      case (Inl e)
      with Go p Inr show ?thesis by (simp add: iteration_def holds_at_def)
    next
      case s3: (Inr s3)
      have I3: "I s3" using frame[OF line_search_regs[OF s3] I2] .
      show ?thesis
      proof (cases "update_regularization s3")
        case (Halt out)
        with update_regularization_invariant[of I s3, OF inc dec I3] Go p Inr s3 show ?thesis
          by (simp add: iteration_def)
      next
        case s4: (Go s4)
        have I4: "I s4" using update_regularization_invariant[of I s3, OF inc dec I3] s4 by simp
        show ?thesis
        proof (cases "stoppingCriteria P s4")
          case (Inl e)
          with Go p Inr s3 s4 show ?thesis by (simp add: iteration_def holds_at_def)
        next
          case s5: (Inr s5)
          have "I s5" using frame[OF stoppingCriteria_regs[OF s5] I4] .
          with Go p Inr s3 s4 s5 show ?thesis by (simp add: iteration_def holds_at_def)
        qed
      qed
    qed
  qed
qed

lemma solve_for_invariant:
  assumes frame: "\<And>s s'. regs s' = regs s \<Longrightarrow> I s \<Longrightarrow> I s'"
      and inc: "\<And>s. I s \<Longrightarrow> I (increaseRegularization s)"
      and dec: "\<And>s. I s \<Longrightarrow> I (decreaseRegularization s)"
  shows "I s \<Longrightarrow> holds_at I (solve_for P fuel k s)"
proof (induction k arbitrary: fuel s)
  case 0
  then show ?case by (simp add: holds_at_def)
next
  case (Suc k)
  show ?case
  proof (cases "iteration P fuel s")
    case (Halt out)
    with iteration_invariant[of I s P fuel, OF frame inc dec Suc.prems] show ?thesis by simp
  next
    case (Go p)
    obtain n1 s1 where p: "p = (n1, s1)" by (cases p)
    have "I s1" using iteration_invariant[of I s P fuel, OF frame inc dec Suc.prems] Go p by simp
    then have "I (s1\<lparr>iter := iter s1 + 1\<rparr>)" by (rule frame[rotated]) (simp add: regs_def)
    then have "holds_at I (solve_for P n1 k (s1\<lparr>iter := iter s1 + 1\<rparr>))" by (rule Suc.IH)
    with Go p show ?thesis by simp
  qed
qed

lemma holds_at_mono: "holds_at I out \<Longrightarrow> (\<And>s. I s \<Longrightarrow> J s) \<Longrightarrow> holds_at J out"
  by (cases out) (auto simp: holds_at_def)

lemma increaseRegularization_Val:
  "xreg s = Val x \<Longrightarrow> increaseRegularization s
     = s\<lparr>xreg := Val (min (x * regfactor s) (regmax s)), ureg := Val (min (x * regfactor s) (regmax s))\<rparr>"
  by (simp add: increaseRegularization_def Let_def min_def)

lemma decreaseRegularization_Val:
  "xreg s = Val x \<Longrightarrow> decreaseRegularization s
     = s\<lparr>xreg := Val (max (x / regfactor s) (regmin s)), ureg := Val (max (x / regfactor s) (regmin s))\<rparr>"
  by (simp add: decreaseRegularization_def Let_def max_def)

lemma solve_init_regs:
  "regs (solve_init X U f reginit s)
     = ((if isnan reginit then Val 0 else reginit), (if isnan reginit then Val 0 else reginit),
        regfactor s, regmin s, regmax s)"
  by (simp add: solve_init_def setCandidate_def regs_def Let_def)

lemma regs_iter [simp]: "regs (s\<lparr>iter := k\<rparr>) = regs s"
  by (simp add: regs_def)

text \<open>
  A run of one iteration on the example returns, so the states the invariants below
  speak of exist.
\<close>

lemma solve_returns_on_example:
  "case solve ex_problem 5 [[1], [3]] [[1]] 1 False (Val 5) ex_solver of
     Returned b s' \<Rightarrow> \<not> b \<and> iter s' = 1
   | Aborted \<Rightarrow> False
   | OutOfFuel s' \<Rightarrow> False"
  by code_simp

section \<open>The regularization values during a solve\<close>

text \<open>
  Claim C9. Every operation that assigns the two regularization values leaves them
  equal: the first lines of \<^verbatim>\<open>solve\<close>, \<^verbatim>\<open>increaseRegularization\<close> and
  \<^verbatim>\<open>decreaseRegularization\<close>. So in every state in which a run of \<^verbatim>\<open>solve\<close> calls
  \<^verbatim>\<open>computeDirection\<close> or returns, the two values are the same number.
\<close>

theorem regularizations_coincide:
  "xreg (solve_init X U f reginit s) = ureg (solve_init X U f reginit s)
   \<and> xreg (increaseRegularization s) = ureg (increaseRegularization s)
   \<and> xreg (decreaseRegularization s) = ureg (decreaseRegularization s)
   \<and> holds_at (\<lambda>s'. xreg s' = ureg s' \<and> \<not> isnan (xreg s'))
        (solve P fuel X U maxiter f reginit s)"
proof -
  let ?I = "\<lambda>s'. xreg s' = ureg s' \<and> \<not> isnan (xreg s')"
  have init: "?I ((solve_init X U f reginit s)\<lparr>iter := 0\<rparr>)"
    using solve_init_regs[of X U f reginit s] by (cases reginit) (auto simp: regs_def)
  have frame: "\<And>s s'. regs s' = regs s \<Longrightarrow> ?I s \<Longrightarrow> ?I s'"
    by (auto simp: regs_def)
  have inc: "\<And>s. ?I s \<Longrightarrow> ?I (increaseRegularization s)"
    by (simp add: increaseRegularization_def Let_def)
       (metis dbl_times.elims isnan.simps(1) isnan.simps(2))
  have dec: "\<And>s. ?I s \<Longrightarrow> ?I (decreaseRegularization s)"
    by (simp add: decreaseRegularization_def Let_def)
       (metis dbl_divide.elims isnan.simps(1) isnan.simps(2))
  have "holds_at ?I (solve_for P fuel maxiter ((solve_init X U f reginit s)\<lparr>iter := 0\<rparr>))"
    using frame inc dec init by (rule solve_for_invariant)
  then show ?thesis
    using init by (simp add: solve_def increaseRegularization_def decreaseRegularization_def Let_def)
qed

theorem regularizations_coincide_witness:
  "\<exists>b s'. solve ex_problem 5 [[1], [3]] [[1]] 1 False (Val 5) ex_solver = Returned b s'
      \<and> xreg s' = ureg s' \<and> \<not> isnan (xreg s')"
proof -
  obtain b s' where
    r: "solve ex_problem 5 [[1], [3]] [[1]] 1 False (Val 5) ex_solver = Returned b s'"
    using solve_returns_on_example
    by (cases "solve ex_problem 5 [[1], [3]] [[1]] 1 False (Val 5) ex_solver") simp_all
  from regularizations_coincide[of "[[1], [3]]" "[[1]]" False "Val 5" ex_solver ex_problem 5 1]
  have "holds_at (\<lambda>s'. xreg s' = ureg s' \<and> \<not> isnan (xreg s'))
          (solve ex_problem 5 [[1], [3]] [[1]] 1 False (Val 5) ex_solver)"
    by blast
  then have "xreg s' = ureg s' \<and> \<not> isnan (xreg s')"
    unfolding r holds_at_def outcome.case .
  with r show ?thesis by blast
qed


lemma bindE_assoc: "bindE (bindE m f) g = bindE m (\<lambda>x. bindE (f x) g)"
  by (cases m) simp_all

text \<open>
  \<^verbatim>\<open>calc\<close> is the statements before the two tests of the regularization, followed by the
  two tests.
\<close>

lemma calc_assemble_fill:
  "calc_assemble P D s =
     bindE (calc_fill P D s) (\<lambda>(K, r).
     bindE (add_xreg s K) (\<lambda>K.
     bindE (add_ureg s K) (\<lambda>K. Inr (K, r))))"
  unfolding calc_assemble_def calc_fill_def
  by (simp add: Let_def bindE_assoc split_def split: list.splits)

lemma calc_fill_frame [simp]: "calc_fill P D (s\<lparr>datas := D', cost := c\<rparr>) = calc_fill P D s"
  by (simp add: calc_fill_def split: list.splits)

lemma calc_adds:
  assumes "xreg s = Val x" "ureg s = Val u"
  shows "calc P s =
      (case problem_calcDiff P (xs s) (us s) (datas s) of
         (D, Inl msg) \<Rightarrow> Inl (Thrown msg (s\<lparr>datas := D\<rparr>))
       | (D, Inr c) \<Rightarrow>
           bindE (calc_fill P D s) (\<lambda>(K, r).
           bindE (add_diagonal K 0 (ndx s) x) (\<lambda>K.
           bindE (add_diagonal K (ndx s) (nu s) u) (\<lambda>K.
           Inr (s\<lparr>datas := D, cost := c, kkt := K, kktref := r\<rparr>)))))"
  using assms unfolding calc_def calc_assemble_fill
  by (simp add: add_xreg_def add_ureg_def bindE_assoc split_def split: prod.splits sum.splits)

lemma nan_reginit_ex:
  "case solve ex_problem 1 [[1], [1]] [[0]] 3 False NaN ex_solver of
     OutOfFuel s' \<Rightarrow>
       iter s' = 1 \<and> xreg s' = Val (1 / 10 ^ 9) \<and> ureg s' = Val (1 / 10 ^ 9)
       \<and> (case calc ex_problem s' of
             Inr s1 \<Rightarrow> mcoeff (kkt s1) 0 0 = 2 + 1 / 10 ^ 9 \<and> mcoeff (kkt s1) 1 1 = 2 + 1 / 10 ^ 9
                        \<and> mcoeff (kkt s1) 2 2 = 2 + 1 / 10 ^ 9 \<and> mcoeff (kkt s1) 3 3 = 0
                        \<and> mcoeff (kkt s1) 4 4 = 0
           | Inl e \<Rightarrow> False)
   | Returned b s' \<Rightarrow> False
   | Aborted \<Rightarrow> False"
  by code_simp

text \<open>
  Claim C10. When \<^verbatim>\<open>reginit\<close> is NaN, \<^verbatim>\<open>solve\<close> sets both regularization values to 0, and
  in every state in which it then calls \<^verbatim>\<open>computeDirection\<close> or returns both values are the
  same number \<open>x\<close>, never NaN. So both tests at the end of \<^verbatim>\<open>calc\<close> succeed there: a call of
  \<^verbatim>\<open>calc\<close> in such a state is the call of \<^verbatim>\<open>calcDiff\<close>, the statements that fill the matrix,
  and then \<open>x\<close> added to the diagonal of the state block and to the diagonal of the control
  block. In the example the second call of \<^verbatim>\<open>calc\<close> is made with \<open>x = 10\<^sup>-\<^sup>9\<close>, and the
  diagonal it leaves carries it.
\<close>

theorem nan_reginit_adds_regularization:
  assumes "isnan reginit"
  shows "xreg (solve_init X U f reginit s) = Val 0 \<and> ureg (solve_init X U f reginit s) = Val 0
   \<and> holds_at (\<lambda>s'. \<exists>x. xreg s' = Val x \<and> ureg s' = Val x
        \<and> (\<forall>K. add_xreg s' K = add_diagonal K 0 (ndx s') x)
        \<and> (\<forall>K. add_ureg s' K = add_diagonal K (ndx s') (nu s') x)
        \<and> calc P s' =
            (case problem_calcDiff P (xs s') (us s') (datas s') of
               (D, Inl msg) \<Rightarrow> Inl (Thrown msg (s'\<lparr>datas := D\<rparr>))
             | (D, Inr c) \<Rightarrow>
                 bindE (calc_fill P D s') (\<lambda>(K, r).
                 bindE (add_diagonal K 0 (ndx s') x) (\<lambda>K.
                 bindE (add_diagonal K (ndx s') (nu s') x) (\<lambda>K.
                 Inr (s'\<lparr>datas := D, cost := c, kkt := K, kktref := r\<rparr>))))))
        (solve P fuel X U maxiter f reginit s)"
proof -
  let ?I = "\<lambda>s'. xreg s' = ureg s' \<and> \<not> isnan (xreg s')"
  let ?J = "\<lambda>s'. \<exists>x. xreg s' = Val x \<and> ureg s' = Val x
        \<and> (\<forall>K. add_xreg s' K = add_diagonal K 0 (ndx s') x)
        \<and> (\<forall>K. add_ureg s' K = add_diagonal K (ndx s') (nu s') x)
        \<and> calc P s' =
            (case problem_calcDiff P (xs s') (us s') (datas s') of
               (D, Inl msg) \<Rightarrow> Inl (Thrown msg (s'\<lparr>datas := D\<rparr>))
             | (D, Inr c) \<Rightarrow>
                 bindE (calc_fill P D s') (\<lambda>(K, r).
                 bindE (add_diagonal K 0 (ndx s') x) (\<lambda>K.
                 bindE (add_diagonal K (ndx s') (nu s') x) (\<lambda>K.
                 Inr (s'\<lparr>datas := D, cost := c, kkt := K, kktref := r\<rparr>)))))"
  have r: "regs (solve_init X U f reginit s) = (Val 0, Val 0, regfactor s, regmin s, regmax s)"
    using assms by (simp add: solve_init_regs)
  then have init: "?I ((solve_init X U f reginit s)\<lparr>iter := 0\<rparr>)"
    by (simp add: regs_def)
  have frame: "\<And>s s'. regs s' = regs s \<Longrightarrow> ?I s \<Longrightarrow> ?I s'"
    by (auto simp: regs_def)
  have inc: "\<And>s. ?I s \<Longrightarrow> ?I (increaseRegularization s)"
  proof -
    fix s :: solver assume "?I s"
    then have "\<not> isnan (xreg s)" by blast
    then obtain x where "xreg s = Val x" by (cases "xreg s") simp_all
    then show "?I (increaseRegularization s)" by (simp add: increaseRegularization_Val)
  qed
  have dec: "\<And>s. ?I s \<Longrightarrow> ?I (decreaseRegularization s)"
  proof -
    fix s :: solver assume "?I s"
    then have "\<not> isnan (xreg s)" by blast
    then obtain x where "xreg s = Val x" by (cases "xreg s") simp_all
    then show "?I (decreaseRegularization s)" by (simp add: decreaseRegularization_Val)
  qed
  have "holds_at ?I (solve_for P fuel maxiter ((solve_init X U f reginit s)\<lparr>iter := 0\<rparr>))"
    using frame inc dec init by (rule solve_for_invariant)
  then have "holds_at ?J (solve_for P fuel maxiter ((solve_init X U f reginit s)\<lparr>iter := 0\<rparr>))"
  proof (rule holds_at_mono)
    fix s' :: solver
    assume I: "?I s'"
    then have "\<not> isnan (xreg s')" by blast
    then obtain x where x1: "xreg s' = Val x" by (cases "xreg s'") simp_all
    with I have x: "xreg s' = Val x" "ureg s' = Val x" by simp_all
    have a: "\<forall>K. add_xreg s' K = add_diagonal K 0 (ndx s') x"
      "\<forall>K. add_ureg s' K = add_diagonal K (ndx s') (nu s') x"
      using x by (simp_all add: add_xreg_def add_ureg_def)
    show "?J s'"
      using x a calc_adds[OF x, of P] by (intro exI[of _ x] conjI)
  qed
  with r show ?thesis by (simp add: solve_def regs_def)
qed

theorem nan_reginit_adds_regularization_witness:
  "isnan NaN
   \<and> (\<exists>s'. solve ex_problem 1 [[1], [1]] [[0]] 3 False NaN ex_solver = OutOfFuel s'
        \<and> xreg s' = Val (1 / 10 ^ 9) \<and> ureg s' = Val (1 / 10 ^ 9)
        \<and> calc ex_problem s' =
            (case problem_calcDiff ex_problem (xs s') (us s') (datas s') of
               (D, Inl msg) \<Rightarrow> Inl (Thrown msg (s'\<lparr>datas := D\<rparr>))
             | (D, Inr c) \<Rightarrow>
                 bindE (calc_fill ex_problem D s') (\<lambda>(K, r).
                 bindE (add_diagonal K 0 (ndx s') (1 / 10 ^ 9)) (\<lambda>K.
                 bindE (add_diagonal K (ndx s') (nu s') (1 / 10 ^ 9)) (\<lambda>K.
                 Inr (s'\<lparr>datas := D, cost := c, kkt := K, kktref := r\<rparr>)))))
        \<and> (case calc ex_problem s' of
              Inr s1 \<Rightarrow> mcoeff (kkt s1) 0 0 = 2 + 1 / 10 ^ 9 \<and> mcoeff (kkt s1) 1 1 = 2 + 1 / 10 ^ 9
                         \<and> mcoeff (kkt s1) 2 2 = 2 + 1 / 10 ^ 9 \<and> mcoeff (kkt s1) 3 3 = 0
                         \<and> mcoeff (kkt s1) 4 4 = 0
            | Inl e \<Rightarrow> False))
   \<and> xreg (solve_init [[1], [1]] [[0]] False NaN ex_solver) = Val 0
   \<and> ureg (solve_init [[1], [1]] [[0]] False NaN ex_solver) = Val 0"
proof -
  obtain s' where o: "solve ex_problem 1 [[1], [1]] [[0]] 3 False NaN ex_solver = OutOfFuel s'"
    using nan_reginit_ex
    by (cases "solve ex_problem 1 [[1], [1]] [[0]] 3 False NaN ex_solver") simp_all
  have e: "xreg s' = Val (1 / 10 ^ 9)" "ureg s' = Val (1 / 10 ^ 9)"
    "case calc ex_problem s' of
       Inr s1 \<Rightarrow> mcoeff (kkt s1) 0 0 = 2 + 1 / 10 ^ 9 \<and> mcoeff (kkt s1) 1 1 = 2 + 1 / 10 ^ 9
                  \<and> mcoeff (kkt s1) 2 2 = 2 + 1 / 10 ^ 9 \<and> mcoeff (kkt s1) 3 3 = 0
                  \<and> mcoeff (kkt s1) 4 4 = 0
     | Inl e \<Rightarrow> False"
    using nan_reginit_ex unfolding o outcome.case by blast+
  have n: "isnan NaN" by simp
  note t = nan_reginit_adds_regularization[OF n, of "[[1], [1]]" "[[0]]" False ex_solver ex_problem 1 3]
  from t have z: "xreg (solve_init [[1], [1]] [[0]] False NaN ex_solver) = Val 0"
    "ureg (solve_init [[1], [1]] [[0]] False NaN ex_solver) = Val 0"
    by blast+
  from t have "\<exists>x. xreg s' = Val x \<and> ureg s' = Val x
        \<and> (\<forall>K. add_xreg s' K = add_diagonal K 0 (ndx s') x)
        \<and> (\<forall>K. add_ureg s' K = add_diagonal K (ndx s') (nu s') x)
        \<and> calc ex_problem s' =
            (case problem_calcDiff ex_problem (xs s') (us s') (datas s') of
               (D, Inl msg) \<Rightarrow> Inl (Thrown msg (s'\<lparr>datas := D\<rparr>))
             | (D, Inr c) \<Rightarrow>
                 bindE (calc_fill ex_problem D s') (\<lambda>(K, r).
                 bindE (add_diagonal K 0 (ndx s') x) (\<lambda>K.
                 bindE (add_diagonal K (ndx s') (nu s') x) (\<lambda>K.
                 Inr (s'\<lparr>datas := D, cost := c, kkt := K, kktref := r\<rparr>)))))"
    unfolding o holds_at_def outcome.case by blast
  then obtain x where x: "xreg s' = Val x"
    and c: "calc ex_problem s' =
            (case problem_calcDiff ex_problem (xs s') (us s') (datas s') of
               (D, Inl msg) \<Rightarrow> Inl (Thrown msg (s'\<lparr>datas := D\<rparr>))
             | (D, Inr c) \<Rightarrow>
                 bindE (calc_fill ex_problem D s') (\<lambda>(K, r).
                 bindE (add_diagonal K 0 (ndx s') x) (\<lambda>K.
                 bindE (add_diagonal K (ndx s') (nu s') x) (\<lambda>K.
                 Inr (s'\<lparr>datas := D, cost := c, kkt := K, kktref := r\<rparr>)))))"
    by blast
  from x e(1) have xe: "x = 1 / 10 ^ 9" by simp
  note c' = c[unfolded xe]
  show ?thesis
    using n o e c' z by (intro conjI exI[of _ s'])
qed

lemma ex_solver_regs: "regfactor ex_solver = 10" "regmin ex_solver = 1 / 10 ^ 9" "regmax ex_solver = 10 ^ 9"
  by (simp_all add: ex_solver_def SolverKKT_def allocateData_def Let_def)

text \<open>
  Claim C5, as stated, fails: the first lines of \<^verbatim>\<open>solve\<close> do not keep the values between
  \<^verbatim>\<open>regmin_\<close> and \<^verbatim>\<open>regmax_\<close>. With \<^verbatim>\<open>reginit\<close> NaN on a solver fresh from its constructor they
  are 0, below \<^verbatim>\<open>regmin_\<close>.
\<close>

theorem regularization_bounds_counterexample:
  "\<not> reg_in_bounds (solve_init [[1], [1]] [[0]] False NaN ex_solver)"
  by (simp add: reg_in_bounds_def solve_init_def setCandidate_def ex_solver_regs)

text \<open>
  Claim C5, amended. \<^verbatim>\<open>increaseRegularization\<close> multiplies by \<^verbatim>\<open>regfactor_\<close> and caps at
  \<^verbatim>\<open>regmax_\<close>, \<^verbatim>\<open>decreaseRegularization\<close> divides by it and floors at \<^verbatim>\<open>regmin_\<close>, and the first
  lines of \<^verbatim>\<open>solve\<close> assign \<^verbatim>\<open>reginit\<close> as it is (0 for NaN). With
  \<open>0 \<le> regmin \<le> regmax\<close> and \<open>1 \<le> regfactor\<close>, and \<^verbatim>\<open>reginit\<close> a number between \<^verbatim>\<open>regmin_\<close> and
  \<^verbatim>\<open>regmax_\<close>, both values are between \<^verbatim>\<open>regmin_\<close> and \<^verbatim>\<open>regmax_\<close> in every state in which
  the run calls \<^verbatim>\<open>computeDirection\<close> or returns.
\<close>

theorem regularization_bounds:
  assumes "0 \<le> regmin s" "regmin s \<le> regmax s" "1 \<le> regfactor s"
      and "regmin s \<le> r" "r \<le> regmax s"
  shows "xreg (increaseRegularization (s\<lparr>xreg := Val x\<rparr>)) = Val (min (x * regfactor s) (regmax s))
   \<and> xreg (decreaseRegularization (s\<lparr>xreg := Val x\<rparr>)) = Val (max (x / regfactor s) (regmin s))
   \<and> xreg (solve_init X U f (Val r) s) = Val r \<and> ureg (solve_init X U f (Val r) s) = Val r
   \<and> xreg (solve_init X U f NaN s) = Val 0 \<and> ureg (solve_init X U f NaN s) = Val 0
   \<and> holds_at reg_in_bounds (solve P fuel X U maxiter f (Val r) s)"
proof -
  let ?I = "\<lambda>s'. reg_in_bounds s' \<and> regfactor s' = regfactor s \<and> regmin s' = regmin s \<and> regmax s' = regmax s"
  have init: "?I ((solve_init X U f (Val r) s)\<lparr>iter := 0\<rparr>)"
    using assms by (simp add: solve_init_def setCandidate_def reg_in_bounds_def)
  have frame: "\<And>s s'. regs s' = regs s \<Longrightarrow> ?I s \<Longrightarrow> ?I s'"
    by (auto simp: regs_def reg_in_bounds_def split: dbl.splits)
  have inc: "\<And>s'. ?I s' \<Longrightarrow> ?I (increaseRegularization s')"
  proof -
    fix s' :: solver assume I: "?I s'"
    then obtain y where y: "xreg s' = Val y" "regmin s \<le> y" "y \<le> regmax s"
      by (cases "xreg s'") (auto simp: reg_in_bounds_def)
    have "y \<le> y * regfactor s" using y assms by (simp add: mult_le_cancel_left1)
    with y assms I show "?I (increaseRegularization s')"
      by (simp add: increaseRegularization_Val reg_in_bounds_def min_def)
  qed
  have dec: "\<And>s'. ?I s' \<Longrightarrow> ?I (decreaseRegularization s')"
  proof -
    fix s' :: solver assume I: "?I s'"
    then obtain y where y: "xreg s' = Val y" "regmin s \<le> y" "y \<le> regmax s"
      by (cases "xreg s'") (auto simp: reg_in_bounds_def)
    have "y / regfactor s \<le> y" using y assms by (simp add: divide_le_eq mult_le_cancel_left1)
    with y assms I show "?I (decreaseRegularization s')"
      by (simp add: decreaseRegularization_Val reg_in_bounds_def max_def)
  qed
  have "holds_at ?I (solve_for P fuel maxiter ((solve_init X U f (Val r) s)\<lparr>iter := 0\<rparr>))"
    using frame inc dec init by (rule solve_for_invariant)
  then have "holds_at reg_in_bounds (solve P fuel X U maxiter f (Val r) s)"
    unfolding solve_def by (rule holds_at_mono) simp
  then show ?thesis
    by (simp add: increaseRegularization_Val decreaseRegularization_Val solve_init_def setCandidate_def)
qed

theorem regularization_bounds_witness:
  "0 \<le> regmin ex_solver \<and> regmin ex_solver \<le> regmax ex_solver \<and> 1 \<le> regfactor ex_solver
   \<and> regmin ex_solver \<le> 1 \<and> 1 \<le> regmax ex_solver
   \<and> xreg (increaseRegularization (ex_solver\<lparr>xreg := Val (10 ^ 9)\<rparr>)) = Val (10 ^ 9)
   \<and> xreg (decreaseRegularization (ex_solver\<lparr>xreg := Val (1 / 10 ^ 9)\<rparr>)) = Val (1 / 10 ^ 9)
   \<and> holds_at reg_in_bounds (solve ex_problem 2 [[1], [1]] [[0]] 3 False (Val 1) ex_solver)"
proof -
  have h: "0 \<le> regmin ex_solver" "regmin ex_solver \<le> regmax ex_solver" "1 \<le> regfactor ex_solver"
    "regmin ex_solver \<le> 1" "1 \<le> regmax ex_solver"
    by (simp_all add: ex_solver_regs)
  show ?thesis
    using h regularization_bounds[OF h, of "10 ^ 9" "[[1], [1]]" "[[0]]" False ex_problem 2 3]
      regularization_bounds[OF h, of "1 / 10 ^ 9" "[[1], [1]]" "[[0]]" False ex_problem 2 3]
    by (simp add: ex_solver_regs)
qed

lemma sum_list_map2_nth:
  "length v = length w \<Longrightarrow> sum_list (map2 f v w) = (\<Sum>i<length v. f (v ! i) (w ! i))"
proof -
  assume l: "length v = length w"
  have "sum_list (map2 f v w) = (\<Sum>i = 0..<length (map2 f v w). map2 f v w ! i)"
    by (rule sum_list_sum_nth)
  also have "\<dots> = (\<Sum>i<length v. f (v ! i) (w ! i))"
    using l by (intro sum.cong) (auto simp: atLeast0LessThan)
  finally show ?thesis .
qed

lemma sum_list_map_upt: "sum_list (map f [0..<n]) = (\<Sum>i<n. f i)"
  by (simp add: interv_sum_list_conv_sum_set_nat atLeast0LessThan)

section \<open>expectedImprovement\<close>

text \<open>
  Claim C8. When \<^verbatim>\<open>expectedImprovement\<close> returns, \<^verbatim>\<open>d_(0)\<close> is minus the dot product of the
  first \<open>ndx + nu\<close> entries of \<^verbatim>\<open>kktref_\<close> with \<^verbatim>\<open>primal_\<close>, and \<^verbatim>\<open>d_(1)\<close> is minus the dot product
  with \<^verbatim>\<open>primal_\<close> of the product of the leading block of \<^verbatim>\<open>kkt_\<close>, of \<open>ndx + nu\<close> rows and
  columns, with \<^verbatim>\<open>primal_\<close>; no constraint row or column enters.
\<close>

theorem expectedImprovement_terms:
  assumes "expectedImprovement s = Inr s'"
  shows "d s' = (- (\<Sum>i<ndx s + nu s. kktref s ! i * primal s ! i),
                 - (\<Sum>i<ndx s + nu s. (\<Sum>j<ndx s + nu s. mcoeff (kkt s) i j * primal s ! j) * primal s ! i))
         \<and> length (primal s) = ndx s + nu s \<and> ndx s + nu s \<le> length (kktref s)
         \<and> ndx s + nu s \<le> mrows (kkt s) \<and> ndx s + nu s \<le> mcols (kkt s)
         \<and> kkt s' = kkt s \<and> kktref s' = kktref s \<and> primal s' = primal s"
proof -
  let ?n = "ndx s + nu s"
  from assms obtain g d0 H hp d1 where
    g: "segment (kktref s) 0 ?n = (Inr g :: vec result)" and d0: "dot g (primal s) = (Inr d0 :: real result)"
    and H: "block (kkt s) 0 0 ?n ?n = (Inr H :: mat result)" and hp: "mat_vec H (primal s) = (Inr hp :: vec result)"
    and d1: "dot hp (primal s) = (Inr d1 :: real result)" and s': "s' = s\<lparr>kkt_primal := hp, d := (- d0, - d1)\<rparr>"
    unfolding expectedImprovement_def by (auto simp: bindE_eq_Inr)
  from g have g': "g = take ?n (kktref s)" and lk: "?n \<le> length (kktref s)"
    by (auto simp: segment_def split: if_splits)
  from d0 have lp: "length (primal s) = ?n" and d0': "d0 = sum_list (map2 (*) g (primal s))"
    using g' lk by (auto simp: dot_def split: if_splits)
  from H have H': "H = \<lparr>mrows = ?n, mcols = ?n, mcoeff = (\<lambda>r c. mcoeff (kkt s) r c)\<rparr>"
    and lr: "?n \<le> mrows (kkt s)" and lc: "?n \<le> mcols (kkt s)"
    by (auto simp: block_def split: if_splits)
  from hp have hp': "hp = map (\<lambda>i. \<Sum>j<?n. mcoeff (kkt s) i j * primal s ! j) [0..<?n]"
    by (auto simp: mat_vec_def H' sum_list_map_upt split: if_splits)
  have "d0 = (\<Sum>i<?n. kktref s ! i * primal s ! i)"
    unfolding d0' using lp lk g' by (subst sum_list_map2_nth) auto
  moreover have "d1 = (\<Sum>i<?n. (\<Sum>j<?n. mcoeff (kkt s) i j * primal s ! j) * primal s ! i)"
  proof -
    have "d1 = sum_list (map2 (*) hp (primal s))"
      using d1 by (auto simp: dot_def split: if_splits)
    also have "\<dots> = (\<Sum>i<length hp. hp ! i * primal s ! i)"
      using lp by (subst sum_list_map2_nth) (auto simp: hp')
    also have "\<dots> = (\<Sum>i<?n. (\<Sum>j<?n. mcoeff (kkt s) i j * primal s ! j) * primal s ! i)"
      by (rule sum.cong) (auto simp: hp')
    finally show ?thesis .
  qed
  ultimately show ?thesis using s' lp lk lr lc by simp
qed

lemma expectedImprovement_ex:
  "expectedImprovement ex_improve = Inr (ex_improve\<lparr>kkt_primal := [6, 8, 2], d := (- 14, - 52)\<rparr>)"
  by (simp add: expectedImprovement_def ex_improve_def ex_base_def segment_def dot_def block_def mat_vec_def
      upt_rec numeral_2_eq_2 numeral_3_eq_3)

theorem expectedImprovement_terms_witness:
  "expectedImprovement ex_improve = Inr (ex_improve\<lparr>kkt_primal := [6, 8, 2], d := (- 14, - 52)\<rparr>)
   \<and> d (ex_improve\<lparr>kkt_primal := [6, 8, 2], d := (- 14, - 52)\<rparr>)
      = (- (\<Sum>i<ndx ex_improve + nu ex_improve. kktref ex_improve ! i * primal ex_improve ! i),
         - (\<Sum>i<ndx ex_improve + nu ex_improve.
              (\<Sum>j<ndx ex_improve + nu ex_improve. mcoeff (kkt ex_improve) i j * primal ex_improve ! j)
                * primal ex_improve ! i))"
  using expectedImprovement_terms[OF expectedImprovement_ex] expectedImprovement_ex by simp

lemma squaredNorm_nonneg: "0 \<le> squaredNorm v"
  unfolding squaredNorm_def by (induction v) auto

lemma squaredNorm_eq_0: "squaredNorm v = 0 \<longleftrightarrow> (\<forall>x\<in>set v. x = 0)"
proof (induction v)
  case Nil
  then show ?case by (simp add: squaredNorm_def)
next
  case (Cons a v)
  have "squaredNorm (a # v) = a * a + squaredNorm v" by (simp add: squaredNorm_def)
  moreover have "0 \<le> a * a" by simp
  ultimately have "squaredNorm (a # v) = 0 \<longleftrightarrow> a * a = 0 \<and> squaredNorm v = 0"
    using squaredNorm_nonneg[of v] by (simp add: add_nonneg_eq_0_iff)
  with Cons.IH show ?case by simp
qed

lemma stoppingCriteria_ex:
  "stoppingCriteria ex_problem ex_stop = Inr (ex_stop\<lparr>stop := 0\<rparr>)"
  "stationarity ex_problem ex_stop = Inr [0, 1, - 1]"
  by (simp_all add: stoppingCriteria_def stationarity_def stationarity_stage_def ex_stop_def ex_base_def
      ex_problem_def ex_model_def ex_data_def mat11_def get_T_def for_loop.simps segment_def nth_chk_def
      back_chk_def set_segment_def mat_vec_def mat_neg_def vec_sub_def vec_add_def squaredNorm_def
      upt_rec numeral_2_eq_2 numeral_3_eq_3)

section \<open>stoppingCriteria\<close>

text \<open>
  Claim C3, as stated, fails: the value is zero in a state whose stationarity vector
  \<^verbatim>\<open>dF\<close> is not zero. \<^verbatim>\<open>stoppingCriteria\<close> takes the squared norm of \<^verbatim>\<open>dL + dF\<close>, the gradient part
  of \<^verbatim>\<open>kktref_\<close> plus the stationarity vector, and here \<^verbatim>\<open>dF\<close> is \<open>(0, 1, -1)\<close> and cancels the
  gradient.
\<close>

theorem stoppingCriteria_zero_counterexample:
  "stoppingCriteria ex_problem ex_stop = Inr (ex_stop\<lparr>stop := 0\<rparr>)
   \<and> stop (ex_stop\<lparr>stop := 0\<rparr>) = 0
   \<and> stationarity ex_problem ex_stop = Inr [0, 1, - 1]"
  by (simp add: stoppingCriteria_ex)

text \<open>
  Claim C3, amended. When \<^verbatim>\<open>stoppingCriteria\<close> returns, its value is the squared norm of
  \<^verbatim>\<open>dL + dF\<close> plus the squared norm of the gap part of \<^verbatim>\<open>kktref_\<close>; in exact arithmetic it is
  not negative, and it is zero if and only if the gap part is zero and the gradient part
  plus the stationarity vector \<^verbatim>\<open>dF\<close> that \<^verbatim>\<open>stoppingCriteria\<close> builds is zero.
\<close>

theorem stoppingCriteria_zero:
  assumes "stoppingCriteria P s = Inr s'"
  shows "\<exists>dL dF g. segment (kktref s) 0 (ndx s + nu s) = (Inr dL :: vec result)
           \<and> stationarity P s = Inr dF
           \<and> segment (kktref s) (ndx s + nu s) (ndx s) = (Inr g :: vec result)
           \<and> length dF = length dL
           \<and> stop s' = squaredNorm (map2 (+) dL dF) + squaredNorm g
           \<and> 0 \<le> stop s'
           \<and> (stop s' = 0 \<longleftrightarrow> (\<forall>x\<in>set g. x = 0) \<and> (\<forall>i<length dL. dL ! i + dF ! i = 0))"
proof -
  from assms obtain dL dF v g where
    dL: "segment (kktref s) 0 (ndx s + nu s) = (Inr dL :: vec result)"
    and dF: "stationarity P s = Inr dF"
    and v: "vec_add dL dF = (Inr v :: vec result)"
    and g: "segment (kktref s) (ndx s + nu s) (ndx s) = (Inr g :: vec result)"
    and s': "s' = s\<lparr>stop := squaredNorm v + squaredNorm g\<rparr>"
    unfolding stoppingCriteria_def by (auto simp: bindE_eq_Inr)
  from v have l: "length dF = length dL" and v': "v = map2 (+) dL dF"
    by (auto simp: vec_add_def split: if_splits)
  have st: "stop s' = squaredNorm v + squaredNorm g" using s' by simp
  have nn: "0 \<le> stop s'" unfolding st using squaredNorm_nonneg[of v] squaredNorm_nonneg[of g] by simp
  have "stop s' = 0 \<longleftrightarrow> squaredNorm v = 0 \<and> squaredNorm g = 0"
    unfolding st using squaredNorm_nonneg[of v] squaredNorm_nonneg[of g] by (simp add: add_nonneg_eq_0_iff)
  moreover have "(\<forall>x\<in>set v. x = 0) \<longleftrightarrow> (\<forall>i<length dL. dL ! i + dF ! i = 0)"
    unfolding v' using l by (auto simp: set_conv_nth)
  ultimately have "stop s' = 0 \<longleftrightarrow> (\<forall>x\<in>set g. x = 0) \<and> (\<forall>i<length dL. dL ! i + dF ! i = 0)"
    by (auto simp: squaredNorm_eq_0)
  with dL dF g l nn st v' show ?thesis by blast
qed

theorem stoppingCriteria_zero_witness:
  "stoppingCriteria ex_problem ex_stop = Inr (ex_stop\<lparr>stop := 0\<rparr>)
   \<and> (\<exists>dL dF g. segment (kktref ex_stop) 0 (ndx ex_stop + nu ex_stop) = (Inr dL :: vec result)
           \<and> stationarity ex_problem ex_stop = Inr dF
           \<and> segment (kktref ex_stop) (ndx ex_stop + nu ex_stop) (ndx ex_stop) = (Inr g :: vec result)
           \<and> length dF = length dL
           \<and> stop (ex_stop\<lparr>stop := 0\<rparr>) = squaredNorm (map2 (+) dL dF) + squaredNorm g
           \<and> 0 \<le> stop (ex_stop\<lparr>stop := 0\<rparr>)
           \<and> (stop (ex_stop\<lparr>stop := 0\<rparr>) = 0
                \<longleftrightarrow> (\<forall>x\<in>set g. x = 0) \<and> (\<forall>i<length dL. dL ! i + dF ! i = 0)))"
  using stoppingCriteria_zero[OF stoppingCriteria_ex(1)] stoppingCriteria_ex(1) by simp

lemma allocateData_allocated: "allocated P (allocateData P nan s)"
  by (simp add: allocated_def allocateData_def Let_def get_T_def)

lemma SolverKKT_allocated: "allocated P (SolverKKT P nan s)"
  using allocateData_allocated[of P nan] by (simp add: SolverKKT_def allocated_def)

lemma for_loop_rule:
  assumes "for_loop t T body a = Inr b" and "t \<le> T" and "I t a"
    and "\<And>k x y. t \<le> k \<Longrightarrow> k < T \<Longrightarrow> I k x \<Longrightarrow> body k x = Inr y \<Longrightarrow> I (Suc k) y"
  shows "I T b"
  using assms
proof (induction t T body a rule: for_loop.induct)
  case (1 t T body a)
  show ?case
  proof (cases "t < T")
    case False
    with "1.prems" show ?thesis by (simp add: for_loop.simps)
  next
    case True
    then obtain a' where a': "body t a = Inr a'" and rest: "for_loop (t + 1) T body a' = Inr b"
      using "1.prems"(1) by (subst (asm) for_loop.simps) (auto split: sum.splits)
    have "I (Suc t) a'" using "1.prems"(4)[OF _ True "1.prems"(3) a'] by simp
    then show ?thesis
      using "1.IH"[OF True a' rest] True "1.prems"(4) by simp
  qed
qed

lemma calc_frame:
  "calc P s = Inr s' \<Longrightarrow> \<exists>D c K r. s' = s\<lparr>datas := D, cost := c, kkt := K, kktref := r\<rparr>"
  unfolding calc_def by (auto simp: bindE_eq_Inr split: prod.splits sum.splits)

lemma computePrimalDual_frame:
  assumes "computePrimalDual s = Inr s'"
  shows "\<exists>pd. ndx s + nu s + ndx s \<le> length pd
    \<and> s' = s\<lparr>primaldual := pd, primal := take (ndx s + nu s) pd,
              dual := take (ndx s) (drop (ndx s + nu s) pd)\<rparr>"
  using assms unfolding computePrimalDual_def
  by (auto simp: bindE_eq_Inr segment_def Let_def split: if_splits)

lemma direction_stage_Inr:
  assumes "direction_stage P p_x p_u q k (ix, iu, DX, DU, LA) = Inr y"
  shows "y = (ix + get_ndx (running_models P ! k), iu + get_nu (running_models P ! k),
              DX[k := take (get_ndx (running_models P ! k)) (drop ix p_x)],
              DU[k := take (get_nu (running_models P ! k)) (drop iu p_u)],
              LA[k := take (get_ndx (running_models P ! k)) (drop ix q)])
    \<and> k < length DX \<and> k < length DU \<and> k < length LA
    \<and> ix + get_ndx (running_models P ! k) \<le> length p_x
    \<and> iu + get_nu (running_models P ! k) \<le> length p_u
    \<and> ix + get_ndx (running_models P ! k) \<le> length q"
  using assms unfolding direction_stage_def
  by (auto simp: bindE_eq_Inr Let_def segment_def update_chk_def split: if_splits)

lemma concat_take_Suc_update:
  "k < length ys \<Longrightarrow> concat (take (Suc k) (ys[k := v])) = concat (take k ys) @ v"
  by (simp add: take_Suc_conv_app_nth)

lemma take_add_segment: "take (i + n) p = take i p @ take n (drop i p)"
  by (simp add: take_add)

lemma direction_loop_invariant:
  assumes loop: "for_loop 0 (get_T P) (direction_stage P p_x p_u q) (0, 0, DX0, DU0, LA0)
                   = Inr (ix, iu, DX, DU, LA)"
  shows "ix = sum_list (map get_ndx (running_models P)) \<and> iu = sum_list (map get_nu (running_models P))
    \<and> length DX = length DX0 \<and> length DU = length DU0 \<and> length LA = length LA0
    \<and> concat (take (get_T P) DX) = take ix p_x
    \<and> concat (take (get_T P) DU) = take iu p_u
    \<and> concat (take (get_T P) LA) = take ix q
    \<and> (\<forall>k<get_T P. length (DX ! k) = get_ndx (running_models P ! k)
                    \<and> length (DU ! k) = get_nu (running_models P ! k)
                    \<and> length (LA ! k) = get_ndx (running_models P ! k))"
proof -
  let ?ms = "running_models P"
  let ?I = "\<lambda>t a. case a of (ix, iu, DX, DU, LA) \<Rightarrow>
      t \<le> get_T P
    \<and> ix = sum_list (map get_ndx (take t ?ms)) \<and> iu = sum_list (map get_nu (take t ?ms))
    \<and> length DX = length DX0 \<and> length DU = length DU0 \<and> length LA = length LA0
    \<and> concat (take t DX) = take ix p_x
    \<and> concat (take t DU) = take iu p_u
    \<and> concat (take t LA) = take ix q
    \<and> (\<forall>k<t. length (DX ! k) = get_ndx (?ms ! k)
             \<and> length (DU ! k) = get_nu (?ms ! k)
             \<and> length (LA ! k) = get_ndx (?ms ! k))"
  have "?I (get_T P) (ix, iu, DX, DU, LA)"
  proof (rule for_loop_rule[OF loop, where I = ?I])
    show "0 \<le> get_T P" by simp
    show "?I 0 (0, 0, DX0, DU0, LA0)" by simp
  next
    fix k x y
    assume k: "k < get_T P" and I: "?I k x" and b: "direction_stage P p_x p_u q k x = Inr y"
    obtain jx ju X U L where x: "x = (jx, ju, X, U, L)" by (cases x)
    let ?n = "get_ndx (?ms ! k)" and ?m = "get_nu (?ms ! k)"
    from direction_stage_Inr[OF b[unfolded x]]
    have y: "y = (jx + ?n, ju + ?m, X[k := take ?n (drop jx p_x)], U[k := take ?m (drop ju p_u)],
                  L[k := take ?n (drop jx q)])"
      and kl: "k < length X" "k < length U" "k < length L"
      and bd: "jx + ?n \<le> length p_x" "ju + ?m \<le> length p_u" "jx + ?n \<le> length q"
      by auto
    have kk: "k < length ?ms" using k by (simp add: get_T_def)
    have tk: "take (Suc k) ?ms = take k ?ms @ [?ms ! k]" using kk by (simp add: take_Suc_conv_app_nth)
    from I x have I':
      "jx = sum_list (map get_ndx (take k ?ms))" "ju = sum_list (map get_nu (take k ?ms))"
      "length X = length DX0" "length U = length DU0" "length L = length LA0"
      "concat (take k X) = take jx p_x" "concat (take k U) = take ju p_u" "concat (take k L) = take jx q"
      "\<forall>i<k. length (X ! i) = get_ndx (?ms ! i) \<and> length (U ! i) = get_nu (?ms ! i)
             \<and> length (L ! i) = get_ndx (?ms ! i)"
      by auto
    have len: "\<forall>i<Suc k. length (X[k := take ?n (drop jx p_x)] ! i) = get_ndx (?ms ! i)
             \<and> length (U[k := take ?m (drop ju p_u)] ! i) = get_nu (?ms ! i)
             \<and> length (L[k := take ?n (drop jx q)] ! i) = get_ndx (?ms ! i)"
    proof (intro allI impI)
      fix i assume "i < Suc k"
      then consider "i < k" | "i = k" by linarith
      then show "length (X[k := take ?n (drop jx p_x)] ! i) = get_ndx (?ms ! i)
             \<and> length (U[k := take ?m (drop ju p_u)] ! i) = get_nu (?ms ! i)
             \<and> length (L[k := take ?n (drop jx q)] ! i) = get_ndx (?ms ! i)"
      proof cases
        case 1
        with I'(9) show ?thesis by simp
      next
        case 2
        with kl bd show ?thesis by simp
      qed
    qed
    show "?I (Suc k) y"
      unfolding y using k I' kl len
      by (simp add: tk concat_take_Suc_update take_add_segment)
  qed
  then show ?thesis by (simp add: get_T_def)
qed

lemma computeDirection_frame:
  assumes "computeDirection P recalc s = Inr s'"
  shows "\<exists>s2 pd ix iu DX DU LA.
      ndx s2 = ndx s \<and> nu s2 = nu s \<and> dxs s2 = dxs s \<and> dus s2 = dus s \<and> lambdas s2 = lambdas s
    \<and> ndx s + nu s + ndx s \<le> length pd
    \<and> primal s2 = take (ndx s + nu s) pd \<and> dual s2 = take (ndx s) (drop (ndx s + nu s) pd)
    \<and> primaldual s2 = pd
    \<and> for_loop 0 (get_T P) (direction_stage P (take (ndx s) (primal s2))
           (take (nu s) (drop (ndx s) (primal s2))) (dual s2)) (0, 0, dxs s, dus s, lambdas s)
         = Inr (ix, iu, DX, DU, LA)
    \<and> ix + get_ndx (terminal_model P) \<le> ndx s \<and> DX \<noteq> [] \<and> LA \<noteq> []
    \<and> s' = s2\<lparr>dxs := DX[length DX - 1 := take (get_ndx (terminal_model P)) (drop ix (take (ndx s) (primal s2)))],
               dus := DU,
               lambdas := LA[length LA - 1 := take (get_ndx (terminal_model P)) (drop ix (dual s2))]\<rparr>"
proof -
  from assms obtain s1 s2 where s1: "(if recalc then calc P s else Inr s) = Inr s1"
    and s2: "computePrimalDual s1 = Inr s2"
    unfolding computeDirection_def by (auto simp: bindE_eq_Inr)
  have f1: "ndx s1 = ndx s" "nu s1 = nu s" "dxs s1 = dxs s" "dus s1 = dus s" "lambdas s1 = lambdas s"
    using s1 by (auto dest!: calc_frame split: if_splits)
  from computePrimalDual_frame[OF s2] obtain pd where pd: "ndx s + nu s + ndx s \<le> length pd"
    and s2': "s2 = s1\<lparr>primaldual := pd, primal := take (ndx s + nu s) pd,
              dual := take (ndx s) (drop (ndx s + nu s) pd)\<rparr>"
    using f1 by auto
  have f2: "ndx s2 = ndx s" "nu s2 = nu s" "dxs s2 = dxs s" "dus s2 = dus s" "lambdas s2 = lambdas s"
    "primal s2 = take (ndx s + nu s) pd" "dual s2 = take (ndx s) (drop (ndx s + nu s) pd)"
    "primaldual s2 = pd"
    using f1 s2' by auto
  have lp: "length (primal s2) = ndx s + nu s" "length (dual s2) = ndx s" using f2 pd by auto
  from assms s1 s2 obtain p_x p_u ix iu DX DU LA v DX' w LA' where
    px: "segment (primal s2) 0 (ndx s2) = (Inr p_x :: vec result)"
    and pu: "segment (primal s2) (ndx s2) (nu s2) = (Inr p_u :: vec result)"
    and loop: "for_loop 0 (get_T P) (direction_stage P p_x p_u (dual s2)) (0, 0, dxs s2, dus s2, lambdas s2)
                 = Inr (ix, iu, DX, DU, LA)"
    and v: "segment p_x ix (get_ndx (terminal_model P)) = (Inr v :: vec result)"
    and DX': "set_back DX v = (Inr DX' :: vec list result)"
    and w: "segment (dual s2) ix (get_ndx (terminal_model P)) = (Inr w :: vec result)"
    and LA': "set_back LA w = (Inr LA' :: vec list result)"
    and s': "s' = s2\<lparr>dxs := DX', dus := DU, lambdas := LA'\<rparr>"
    unfolding computeDirection_def by (auto simp: bindE_eq_Inr Let_def split: prod.splits)
  have px': "p_x = take (ndx s) (primal s2)" using px f2 by (auto simp: segment_def split: if_splits)
  have pu': "p_u = take (nu s) (drop (ndx s) (primal s2))"
    using pu f2 by (auto simp: segment_def split: if_splits)
  have v': "v = take (get_ndx (terminal_model P)) (drop ix p_x)"
    and b: "ix + get_ndx (terminal_model P) \<le> length p_x"
    using v by (auto simp: segment_def split: if_splits)
  have w': "w = take (get_ndx (terminal_model P)) (drop ix (dual s2))"
    using w by (auto simp: segment_def split: if_splits)
  have DX'': "DX \<noteq> []" "DX' = DX[length DX - 1 := v]"
    using DX' by (auto simp: set_back_def split: if_splits)
  have LA'': "LA \<noteq> []" "LA' = LA[length LA - 1 := w]"
    using LA' by (auto simp: set_back_def split: if_splits)
  have b': "ix + get_ndx (terminal_model P) \<le> ndx s" using b px' lp by simp
  show ?thesis
    apply (rule exI[of _ s2], rule exI[of _ pd], rule exI[of _ ix], rule exI[of _ iu])
    apply (rule exI[of _ DX], rule exI[of _ DU], rule exI[of _ LA])
    using f2 pd loop b' DX'' LA'' s' v' w' px' pu' by simp
qed

section \<open>computeDirection\<close>

text \<open>
  Claim C7. On a solver with the sizes \<^verbatim>\<open>allocateData\<close> leaves, when \<^verbatim>\<open>computeDirection\<close>
  returns, the entries of \<^verbatim>\<open>dxs_\<close> followed by the entries of \<^verbatim>\<open>dus_\<close> are \<^verbatim>\<open>primal_\<close> (the state
  part, then the control part), and the entries of \<^verbatim>\<open>lambdas_\<close> are \<^verbatim>\<open>dual_\<close>; \<^verbatim>\<open>primal_\<close> and
  \<^verbatim>\<open>dual_\<close> are the two parts of the solution \<^verbatim>\<open>primaldual_\<close>. Entry \<open>t\<close> has the dimension of
  stage \<open>t\<close>; there are \<open>T + 1\<close> state increments and multipliers, the last ones of the
  terminal stage, and \<open>T\<close> control increments.
\<close>

theorem direction_slices:
  assumes "allocated P s" and "computeDirection P recalc s = Inr s'"
  shows "concat (dxs s') @ concat (dus s') = primal s' \<and> concat (lambdas s') = dual s'
    \<and> primal s' = take (ndx s + nu s) (primaldual s')
    \<and> dual s' = take (ndx s) (drop (ndx s + nu s) (primaldual s'))
    \<and> length (primal s') = ndx s + nu s \<and> length (dual s') = ndx s
    \<and> length (dxs s') = get_T P + 1 \<and> length (dus s') = get_T P \<and> length (lambdas s') = get_T P + 1
    \<and> (\<forall>t<get_T P. length (dxs s' ! t) = get_ndx (running_models P ! t)
                    \<and> length (dus s' ! t) = get_nu (running_models P ! t)
                    \<and> length (lambdas s' ! t) = get_ndx (running_models P ! t))
    \<and> length (dxs s' ! get_T P) = get_ndx (terminal_model P)
    \<and> length (lambdas s' ! get_T P) = get_ndx (terminal_model P)"
proof -
  let ?T = "get_T P" and ?nf = "get_ndx (terminal_model P)"
  from assms(1) have al: "ndx s = sum_list (map get_ndx (running_models P)) + ?nf"
    "nu s = sum_list (map get_nu (running_models P))"
    "length (dxs s) = ?T + 1" "length (dus s) = ?T" "length (lambdas s) = ?T + 1"
    by (auto simp: allocated_def)
  from computeDirection_frame[OF assms(2)] obtain s2 pd ix iu DX DU LA where
    f: "ndx s2 = ndx s" "nu s2 = nu s"
    and pd: "ndx s + nu s + ndx s \<le> length pd"
    and p: "primal s2 = take (ndx s + nu s) pd" and q: "dual s2 = take (ndx s) (drop (ndx s + nu s) pd)"
    and pd2: "primaldual s2 = pd"
    and loop: "for_loop 0 ?T (direction_stage P (take (ndx s) (primal s2))
           (take (nu s) (drop (ndx s) (primal s2))) (dual s2)) (0, 0, dxs s, dus s, lambdas s)
         = Inr (ix, iu, DX, DU, LA)"
    and s': "s' = s2\<lparr>dxs := DX[length DX - 1 := take ?nf (drop ix (take (ndx s) (primal s2)))],
               dus := DU, lambdas := LA[length LA - 1 := take ?nf (drop ix (dual s2))]\<rparr>"
    by blast
  let ?px = "take (ndx s) (primal s2)" and ?pu = "take (nu s) (drop (ndx s) (primal s2))"
  have lp: "length (primal s2) = ndx s + nu s" and lq: "length (dual s2) = ndx s"
    using p q pd by auto
  have lpx: "length ?px = ndx s" and lpu: "length ?pu = nu s" using lp by auto
  have split: "?px @ ?pu = primal s2" using lp by (simp add: take_add[symmetric])
  from direction_loop_invariant[OF loop]
  have ix: "ix = sum_list (map get_ndx (running_models P))"
    and iu: "iu = sum_list (map get_nu (running_models P))"
    and len: "length DX = ?T + 1" "length DU = ?T" "length LA = ?T + 1"
    and cx: "concat (take ?T DX) = take ix ?px"
    and cu: "concat (take ?T DU) = take iu ?pu"
    and cl: "concat (take ?T LA) = take ix (dual s2)"
    and ls: "\<forall>k<?T. length (DX ! k) = get_ndx (running_models P ! k)
                    \<and> length (DU ! k) = get_nu (running_models P ! k)
                    \<and> length (LA ! k) = get_ndx (running_models P ! k)"
    using al by auto
  have nd: "ndx s = ix + ?nf" using al ix by simp
  have DX': "DX[length DX - 1 := take ?nf (drop ix ?px)] = take ?T DX @ [take ?nf (drop ix ?px)]"
    using len by (simp add: list_eq_iff_nth_eq nth_append nth_list_update)
  have LA': "LA[length LA - 1 := take ?nf (drop ix (dual s2))] = take ?T LA @ [take ?nf (drop ix (dual s2))]"
    using len by (simp add: list_eq_iff_nth_eq nth_append nth_list_update)
  have c1: "concat (dxs s') = ?px"
  proof -
    have "concat (dxs s') = take ix ?px @ take ?nf (drop ix ?px)"
      unfolding s' using DX' cx by simp
    also have "\<dots> = take (ix + ?nf) ?px" by (rule take_add[symmetric])
    also have "\<dots> = ?px" using lpx nd by simp
    finally show ?thesis .
  qed
  have c2: "concat (dus s') = ?pu"
  proof -
    have "concat (dus s') = concat (take ?T DU)" unfolding s' using len by simp
    also have "\<dots> = ?pu" using cu iu al lpu by simp
    finally show ?thesis .
  qed
  have c3: "concat (lambdas s') = dual s2"
  proof -
    have "concat (lambdas s') = take ix (dual s2) @ take ?nf (drop ix (dual s2))"
      unfolding s' using LA' cl by simp
    also have "\<dots> = take (ix + ?nf) (dual s2)" by (rule take_add[symmetric])
    also have "\<dots> = dual s2" using lq nd by simp
    finally show ?thesis .
  qed
  have e1: "primal s' = primal s2" "dual s' = dual s2" "primaldual s' = pd" using s' pd2 by simp_all
  have l1: "length (dxs s') = ?T + 1" "length (dus s') = ?T" "length (lambdas s') = ?T + 1"
    using s' len by simp_all
  have l2: "\<forall>t<?T. length (dxs s' ! t) = get_ndx (running_models P ! t)
                    \<and> length (dus s' ! t) = get_nu (running_models P ! t)
                    \<and> length (lambdas s' ! t) = get_ndx (running_models P ! t)"
    using ls len s' by (simp add: nth_list_update)
  have l3: "length (dxs s' ! ?T) = ?nf" "length (lambdas s' ! ?T) = ?nf"
    using s' len lpx lq nd by simp_all
  show ?thesis
    using c1 c2 c3 split e1 p q lp lq l1 l2 l3 by simp
qed

lemma computeDirection_ex:
  "case computeDirection ex_problem True ex_start of
     Inr s' \<Rightarrow> dxs s' = [[- 2], [- 6]] \<and> dus s' = [[- 2]] \<and> lambdas s' = [[0], [- 1]]
              \<and> primal s' = [- 2, - 6, - 2] \<and> dual s' = [0, - 1]
   | Inl e \<Rightarrow> False"
  by code_simp

lemma ex_start_allocated: "allocated ex_problem ex_start"
  using SolverKKT_allocated[of ex_problem 0 ex_base]
  by (simp add: allocated_def ex_start_def solve_init_def setCandidate_def ex_solver_def)

theorem direction_slices_witness:
  "allocated ex_problem ex_start
   \<and> (\<exists>s'. computeDirection ex_problem True ex_start = Inr s'
         \<and> dxs s' = [[- 2], [- 6]] \<and> dus s' = [[- 2]] \<and> lambdas s' = [[0], [- 1]]
         \<and> concat (dxs s') @ concat (dus s') = primal s' \<and> concat (lambdas s') = dual s'
         \<and> length (dxs s') = get_T ex_problem + 1 \<and> length (dus s') = get_T ex_problem)"
proof -
  obtain s' where s': "computeDirection ex_problem True ex_start = Inr s'"
    and v: "dxs s' = [[- 2], [- 6]]" "dus s' = [[- 2]]" "lambdas s' = [[0], [- 1]]"
    using computeDirection_ex by (cases "computeDirection ex_problem True ex_start") auto
  from direction_slices[OF ex_start_allocated s'] s' v ex_start_allocated
  show ?thesis by blast
qed

lemma line_search_rejected:
  "rejects_all P as s \<Longrightarrow> as \<noteq> [] \<Longrightarrow>
     \<exists>XT UT D. line_search P as s = Inr (s\<lparr>steplength := last as, xs_try := XT, us_try := UT, datas := D\<rparr>)"
proof (induction as arbitrary: s)
  case Nil
  then show ?case by simp
next
  case (Cons a as)
  from Cons.prems(1) obtain msg s1 where t: "tryStep P a (s\<lparr>steplength := a\<rparr>) = Inl (Thrown msg s1)"
    and r: "rejects_all P as s1"
    by (auto split: sum.splits error.splits)
  from tryStep_cases[of P a "s\<lparr>steplength := a\<rparr>"] t obtain XT UT D where
    s1: "s1 = s\<lparr>steplength := a, xs_try := XT, us_try := UT, datas := D\<rparr>"
    by auto
  show ?case
  proof (cases "as = []")
    case True
    with t s1 show ?thesis by auto
  next
    case False
    from Cons.IH[OF r False] obtain XT' UT' D' where
      "line_search P as s1 = Inr (s1\<lparr>steplength := last as, xs_try := XT', us_try := UT', datas := D'\<rparr>)"
      by blast
    with t s1 False show ?thesis by auto
  qed
qed

lemma all_rejected_zero_ex:
  "(case direction_retry ex_reject (Suc 0) True (solve_init [[1], [3]] [[1]] False NaN ex_solver) of
      Go (n, s1) \<Rightarrow>
        (case expectedImprovement s1 of
           Inr s2 \<Rightarrow> length (alphas s2) = 10 \<and> rejects_all ex_reject (alphas s2) s2
                     \<and> xreg s2 = Val 0 \<and> ureg s2 = Val 0
         | Inl e \<Rightarrow> False)
    | Halt out \<Rightarrow> False)"
  by code_simp

lemma all_rejected_zero_iteration_ex:
  "(case iteration ex_reject (Suc 0) (solve_init [[1], [3]] [[1]] False NaN ex_solver) of
        Go (n, s5) \<Rightarrow> steplength s5 = 1 / 512 \<and> xreg s5 = Val 0 \<and> ureg s5 = Val 0
                      \<and> \<not> dbl_greater (xreg s5) 0 \<and> regmax s5 = 10 ^ 9
      | Halt out \<Rightarrow> False)"
  by code_simp

lemma all_rejected_solve_ex:
  "case solve ex_reject 1 [[1], [3]] [[1]] 1 False NaN ex_solver of
        Returned b s' \<Rightarrow> \<not> b \<and> iter s' = 1 \<and> steplength s' = 1 / 512 \<and> xreg s' = Val 0
                         \<and> regmax s' = 10 ^ 9
      | Aborted \<Rightarrow> False
      | OutOfFuel s' \<Rightarrow> False"
  by code_simp

lemma all_rejected_ex:
  "case direction_retry ex_reject (Suc 0) True ex_start_hi of
     Go (n, s1) \<Rightarrow>
       (case expectedImprovement s1 of
          Inr s2 \<Rightarrow> alphas s2 \<noteq> [] \<and> rejects_all ex_reject (alphas s2) s2
                    \<and> \<not> last (alphas s2) > th_step s2 \<and> last (alphas s2) = 1 / 512
                    \<and> regs s2 = (Val (10 ^ 8), Val (10 ^ 8), 10, 1 / 10 ^ 9, 10 ^ 9)
        | Inl e \<Rightarrow> False)
   | Halt out \<Rightarrow> False"
  by code_simp

section \<open>The line search with a cost evaluation that always throws\<close>

text \<open>
  Claim C6, as stated, fails: the regularization is not increased when it is 0, which is
  what \<^verbatim>\<open>solve\<close> sets for a NaN \<^verbatim>\<open>reginit\<close>. On the example with a cost evaluation that throws
  at every trial point, all ten step lengths are rejected, the pass ends with the step
  length \<open>1/512\<close>, and \<^verbatim>\<open>increaseRegularization\<close> leaves \<open>0 * 10 = 0\<close>: the regularization never
  moves towards \<^verbatim>\<open>regmax_\<close>, and \<^verbatim>\<open>solve\<close> returns false only because \<^verbatim>\<open>maxiter\<close> is reached.
\<close>

theorem all_rejected_iteration_counterexample:
  "(case direction_retry ex_reject (Suc 0) True (solve_init [[1], [3]] [[1]] False NaN ex_solver) of
      Go (n, s1) \<Rightarrow>
        (case expectedImprovement s1 of
           Inr s2 \<Rightarrow> length (alphas s2) = 10 \<and> rejects_all ex_reject (alphas s2) s2
                     \<and> xreg s2 = Val 0 \<and> ureg s2 = Val 0
         | Inl e \<Rightarrow> False)
    | Halt out \<Rightarrow> False)
   \<and> (case iteration ex_reject (Suc 0) (solve_init [[1], [3]] [[1]] False NaN ex_solver) of
        Go (n, s5) \<Rightarrow> steplength s5 = 1 / 512 \<and> xreg s5 = Val 0 \<and> ureg s5 = Val 0
                      \<and> \<not> dbl_greater (xreg s5) 0 \<and> regmax s5 = 10 ^ 9
      | Halt out \<Rightarrow> False)
   \<and> (case solve ex_reject 1 [[1], [3]] [[1]] 1 False NaN ex_solver of
        Returned b s' \<Rightarrow> \<not> b \<and> iter s' = 1 \<and> steplength s' = 1 / 512 \<and> xreg s' = Val 0
                         \<and> regmax s' = 10 ^ 9
      | Aborted \<Rightarrow> False
      | OutOfFuel s' \<Rightarrow> False)"
  using all_rejected_zero_ex all_rejected_zero_iteration_ex all_rejected_solve_ex
  by (intro conjI)

text \<open>
  Claim C6, amended. In a pass of the loop of \<^verbatim>\<open>solve\<close> whose direction was computed, when
  \<^verbatim>\<open>tryStep\<close> throws for every step length of \<^verbatim>\<open>alphas_\<close> (and the smallest step length is not
  above \<^verbatim>\<open>th_step_\<close>, as with the values of the constructor): the line search ends with
  \<^verbatim>\<open>steplength_\<close> the last, smallest step length and with the candidate trajectory, its cost
  and the feasibility flags as they were, so no step was accepted;
  \<^verbatim>\<open>increaseRegularization\<close> is then called and leaves both regularization values at
  \<open>min (x * regfactor) regmax\<close>, where \<open>x\<close> is the value before, which is larger than \<open>x\<close> when
  \<open>0 < x < regmax\<close> and \<open>1 < regfactor\<close> and is 0 when \<open>x\<close> is 0; when the value left is
  \<^verbatim>\<open>regmax_\<close>, the pass and with it \<^verbatim>\<open>solve\<close> return false, and otherwise the pass goes on to
  \<^verbatim>\<open>stoppingCriteria\<close>.
\<close>

theorem all_rejected_iteration:
  assumes "direction_retry P fuel True s = Go (fuel', s1)"
      and "expectedImprovement s1 = Inr s2"
      and "alphas s2 \<noteq> []" and "rejects_all P (alphas s2) s2"
      and "\<not> last (alphas s2) > th_step s2"
      and "xreg s2 = Val x"
  shows "\<exists>s3. line_search P (alphas s2) s2 = Inr s3
           \<and> steplength s3 = last (alphas s2)
           \<and> xs s3 = xs s2 \<and> us s3 = us s2 \<and> cost s3 = cost s2
           \<and> is_feasible s3 = is_feasible s2 \<and> was_feasible s3 = was_feasible s2
           \<and> regs s3 = regs s2
           \<and> update_regularization s3
               = (if dbl_equal (xreg (increaseRegularization s3)) (regmax s3)
                  then Halt (Returned False (increaseRegularization s3))
                  else Go (increaseRegularization s3))
           \<and> xreg (increaseRegularization s3) = Val (min (x * regfactor s2) (regmax s2))
           \<and> ureg (increaseRegularization s3) = Val (min (x * regfactor s2) (regmax s2))
           \<and> (0 < x \<and> x < regmax s2 \<and> 1 < regfactor s2
                \<longrightarrow> x < min (x * regfactor s2) (regmax s2))
           \<and> (x = 0 \<and> 0 < regmax s2 \<longrightarrow> min (x * regfactor s2) (regmax s2) = 0)
           \<and> (min (x * regfactor s2) (regmax s2) = regmax s2
                \<longrightarrow> iteration P fuel s = Halt (Returned False (increaseRegularization s3))
                  \<and> solve_for P fuel (Suc k) s = Returned False (increaseRegularization s3))
           \<and> (min (x * regfactor s2) (regmax s2) \<noteq> regmax s2
                \<longrightarrow> iteration P fuel s
                    = (case stoppingCriteria P (increaseRegularization s3) of
                         Inl e \<Rightarrow> Halt Aborted
                       | Inr s5 \<Rightarrow> if was_feasible s5 \<and> stop s5 < th_stop s5
                                   then Halt (Returned True s5) else Go (fuel', s5)))"
proof -
  from line_search_rejected[OF assms(4,3)] obtain XT UT D where
    ls: "line_search P (alphas s2) s2
           = Inr (s2\<lparr>steplength := last (alphas s2), xs_try := XT, us_try := UT, datas := D\<rparr>)"
    by blast
  let ?s3 = "s2\<lparr>steplength := last (alphas s2), xs_try := XT, us_try := UT, datas := D\<rparr>"
  let ?y = "min (x * regfactor s2) (regmax s2)"
  have x3: "xreg ?s3 = Val x" using assms(6) by simp
  have inc: "increaseRegularization ?s3 = ?s3\<lparr>xreg := Val ?y, ureg := Val ?y\<rparr>"
    using increaseRegularization_Val[OF x3] by simp
  have rm: "regmax (increaseRegularization ?s3) = regmax ?s3"
    by (simp add: increaseRegularization_def Let_def)
  have ur: "update_regularization ?s3
               = (if dbl_equal (xreg (increaseRegularization ?s3)) (regmax ?s3)
                  then Halt (Returned False (increaseRegularization ?s3))
                  else Go (increaseRegularization ?s3))"
    using assms(3,5) unfolding update_regularization_def Let_def rm
    by (simp add: increaseRegularization_def Let_def)
  have eq: "dbl_equal (xreg (increaseRegularization ?s3)) (regmax ?s3) \<longleftrightarrow> ?y = regmax s2"
    unfolding inc by simp
  have it: "iteration P fuel s = Halt (Returned False (increaseRegularization ?s3))"
    if "?y = regmax s2"
  proof -
    from that eq have "dbl_equal (xreg (increaseRegularization ?s3)) (regmax ?s3)" by blast
    with ur have "update_regularization ?s3 = Halt (Returned False (increaseRegularization ?s3))"
      by simp
    with assms(1,2) ls show ?thesis by (simp add: iteration_def)
  qed
  have it2: "iteration P fuel s
                    = (case stoppingCriteria P (increaseRegularization ?s3) of
                         Inl e \<Rightarrow> Halt Aborted
                       | Inr s5 \<Rightarrow> if was_feasible s5 \<and> stop s5 < th_stop s5
                                   then Halt (Returned True s5) else Go (fuel', s5))"
    if "?y \<noteq> regmax s2"
  proof -
    from that eq have "\<not> dbl_equal (xreg (increaseRegularization ?s3)) (regmax ?s3)" by blast
    with ur have "update_regularization ?s3 = Go (increaseRegularization ?s3)" by simp
    with assms(1,2) ls show ?thesis by (simp add: iteration_def)
  qed
  have gt: "0 < x \<and> x < regmax s2 \<and> 1 < regfactor s2 \<longrightarrow> x < ?y"
    by (auto simp: min_def)
  have z: "x = 0 \<and> 0 < regmax s2 \<longrightarrow> ?y = 0"
    by (auto simp: min_def)
  have xi: "xreg (increaseRegularization ?s3) = Val ?y" "ureg (increaseRegularization ?s3) = Val ?y"
    unfolding inc by simp_all
  have fr: "steplength ?s3 = last (alphas s2)" "xs ?s3 = xs s2" "us ?s3 = us s2"
    "cost ?s3 = cost s2" "is_feasible ?s3 = is_feasible s2" "was_feasible ?s3 = was_feasible s2"
    "regs ?s3 = regs s2"
    by (simp_all add: regs_def)
  have sf: "solve_for P fuel (Suc k) s = Returned False (increaseRegularization ?s3)"
    if "?y = regmax s2"
    using it[OF that] by simp
  show ?thesis
    using ls fr ur xi gt z it sf it2 by (intro exI[of _ ?s3] conjI impI) blast+
qed

theorem all_rejected_iteration_witness:
  "\<exists>n s1 s2 s3. direction_retry ex_reject (Suc 0) True ex_start_hi = Go (n, s1)
      \<and> expectedImprovement s1 = Inr s2
      \<and> alphas s2 \<noteq> [] \<and> rejects_all ex_reject (alphas s2) s2 \<and> \<not> last (alphas s2) > th_step s2
      \<and> xreg s2 = Val (10 ^ 8)
      \<and> line_search ex_reject (alphas s2) s2 = Inr s3
      \<and> steplength s3 = 1 / 512 \<and> xs s3 = xs s2 \<and> us s3 = us s2
      \<and> xreg (increaseRegularization s3) = Val (10 ^ 9)
      \<and> ureg (increaseRegularization s3) = Val (10 ^ 9)
      \<and> dbl_greater (xreg (increaseRegularization s3)) (10 ^ 8)
      \<and> iteration ex_reject (Suc 0) ex_start_hi = Halt (Returned False (increaseRegularization s3))
      \<and> solve_for ex_reject (Suc 0) (Suc 4) ex_start_hi = Returned False (increaseRegularization s3)"
proof -
  from all_rejected_ex obtain p where p: "direction_retry ex_reject (Suc 0) True ex_start_hi = Go p"
    by (cases "direction_retry ex_reject (Suc 0) True ex_start_hi") (simp_all del: direction_retry.simps)
  obtain n s1 where ps: "p = (n, s1)" by (cases p)
  from all_rejected_ex p ps obtain s2 where s2: "expectedImprovement s1 = Inr s2"
    by (cases "expectedImprovement s1") (simp_all del: direction_retry.simps)
  from all_rejected_ex p ps s2
  have h: "direction_retry ex_reject (Suc 0) True ex_start_hi = Go (n, s1)"
    "expectedImprovement s1 = Inr s2" "alphas s2 \<noteq> []" "rejects_all ex_reject (alphas s2) s2"
    "\<not> last (alphas s2) > th_step s2"
    and l: "last (alphas s2) = 1 / 512"
    and r: "regs s2 = (Val (10 ^ 8), Val (10 ^ 8), 10, 1 / 10 ^ 9, 10 ^ 9)"
    by (simp_all del: direction_retry.simps)
  from r have x: "xreg s2 = Val (10 ^ 8)" and c: "regfactor s2 = 10" "regmax s2 = 10 ^ 9"
    by (simp_all add: regs_def)
  have m: "min (10 ^ 8 * regfactor s2) (regmax s2) = (10 ^ 9 :: real)"
    "min (10 ^ 8 * regfactor s2) (regmax s2) = regmax s2"
    using c by simp_all
  from all_rejected_iteration[OF h x, of 4] obtain s3 where
    c3: "line_search ex_reject (alphas s2) s2 = Inr s3" "steplength s3 = last (alphas s2)"
       "xs s3 = xs s2" "us s3 = us s2"
       "xreg (increaseRegularization s3) = Val (min (10 ^ 8 * regfactor s2) (regmax s2))"
       "ureg (increaseRegularization s3) = Val (min (10 ^ 8 * regfactor s2) (regmax s2))"
    and i: "min (10 ^ 8 * regfactor s2) (regmax s2) = regmax s2
                \<longrightarrow> iteration ex_reject (Suc 0) ex_start_hi = Halt (Returned False (increaseRegularization s3))
                  \<and> solve_for ex_reject (Suc 0) (Suc 4) ex_start_hi = Returned False (increaseRegularization s3)"
    by blast
  from i m have "iteration ex_reject (Suc 0) ex_start_hi = Halt (Returned False (increaseRegularization s3))
                  \<and> solve_for ex_reject (Suc 0) (Suc 4) ex_start_hi = Returned False (increaseRegularization s3)"
    by blast
  with h c3 l x m show ?thesis
    by (intro exI[of _ n] exI[of _ s1] exI[of _ s2] exI[of _ s3]) (simp del: direction_retry.simps solve_for.simps)
qed

lemma no_throw_calc:
  "snd (problem_calcDiff P (xs s) (us s) (datas s)) = Inr c \<Longrightarrow> no_throw (calc P s)"
  unfolding calc_def
  by (auto simp: no_throw_calc_assemble split: prod.splits intro!: no_throw_bindE)

lemma no_throw_computeDirection:
  assumes "no_throw (if recalc then calc P s else Inr s)"
  shows "no_throw (computeDirection P recalc s)"
  unfolding computeDirection_def using assms
  by (auto simp: Let_def no_throw_direction_stage no_throw_computePrimalDual
           split: prod.splits intro!: no_throw_bindE no_throw_for_loop)

lemma direction_retry_no_throw:
  assumes "no_throw (computeDirection P recalc s)"
  shows "direction_retry P (Suc n) recalc s = Halt Aborted
         \<or> (\<exists>s'. direction_retry P (Suc n) recalc s = Go (n, s') \<and> regs s' = regs s)"
proof (cases "computeDirection P recalc s")
  case (Inr s')
  then show ?thesis using computeDirection_regs[OF Inr] by simp
next
  case (Inl e)
  with assms show ?thesis by (cases e) simp_all
qed

lemma ex_start_regs: "regs (ex_start\<lparr>kkt_llt := llt\<rparr>) = (Val 5, Val 5, 10, 1 / 10 ^ 9, 10 ^ 9)"
  by (simp add: regs_def ex_start_def solve_init_def setCandidate_def ex_solver_regs)

lemma ex_problem_no_throw: "no_throw (computeDirection ex_problem recalc s)"
  by (rule no_throw_computeDirection)
     (auto intro: no_throw_calc[where c = "ex_cost (xs s) (us s)"] simp: ex_problem_def)

lemma ex_not_positive_definite:
  "case direction_retry ex_problem (Suc 0) True ex_start of
     Go (n, s') \<Rightarrow>
       n = 0 \<and> xreg s' = Val 5 \<and> ureg s' = Val 5
       \<and> map (\<lambda>i. map (mcoeff (kkt s') i) [0, 1, 2, 3, 4]) [0, 1, 2, 3, 4]
           = [[7, 0, 0, 1, - 1], [0, 7, 0, 0, 1], [0, 0, 7, 0, - 1], [1, 0, 0, 0, 0],
              [- 1, 1, - 1, 0, 0]]
       \<and> (case bindE (mat_vec (kkt s') [0, 0, 0, 1, 0]) (dot [0, 0, 0, 1, 0]) of
                 Inr q \<Rightarrow> q = 0 | Inl e \<Rightarrow> False)
   | Halt out \<Rightarrow> False"
  by code_simp

lemma ex_iteration_decreases:
  "case iteration ex_problem (Suc 0) ex_start of
     Go (n, s') \<Rightarrow> n = 0 \<and> steplength s' = 1 \<and> xreg s' = Val (1 / 2) \<and> ureg s' = Val (1 / 2)
   | Halt out \<Rightarrow> False"
  by code_simp

text \<open>
  The only throw that reaches the \<^verbatim>\<open>catch\<close> of the loop \<^verbatim>\<open>while (true)\<close> is one of \<^verbatim>\<open>calcDiff\<close>.
  With a derivative evaluation that throws, the \<^verbatim>\<open>catch\<close> finds the regularization different
  from \<^verbatim>\<open>regmax_\<close> and calls \<^verbatim>\<open>computeDirection\<close> again, without \<^verbatim>\<open>calc\<close> and without a call of
  \<^verbatim>\<open>increaseRegularization\<close>: the second call returns a direction from the \<^verbatim>\<open>kkt_\<close> that was
  never assembled, and the regularization is still 5.
\<close>

lemma retry_after_throw_ex:
  "case direction_retry ex_throw (Suc (Suc 0)) True ex_start of
     Go (n, s') \<Rightarrow> n = 0 \<and> xreg s' = Val 5 \<and> ureg s' = Val 5 \<and> mcoeff (kkt s') 0 0 = 0
                  \<and> primal s' = [0, 0, 0]
   | Halt out \<Rightarrow> False"
  by code_simp

section \<open>A failure of the factorization\<close>

text \<open>
  Claim C1 at a failing input: the example problem solved with regularization 5. The
  matrix \<^verbatim>\<open>calc\<close> assembles is not positive definite (its quadratic form is 0 at the fourth
  unit vector, the diagonal of the constraint block being 0), so it has no Cholesky
  factorization. \<^verbatim>\<open>computePrimalDual\<close> throws nothing, whatever the matrix and whatever the
  factorization leaves, and \<^verbatim>\<open>computeDirection(false)\<close> throws nothing either. So the first
  call of \<^verbatim>\<open>computeDirection\<close> in the loop \<^verbatim>\<open>while (true)\<close> ends the loop, whatever vector the
  factorization gives (a vector of the wrong size stops the run in an Eigen assertion):
  nothing is caught, the regularization is still 5, and no second call is made. With the factorization of the example, which gives the right-hand side
  back, the pass then goes on to the line search with that direction, accepts the step
  length 1 and decreases the regularization to \<open>1/2\<close>.
\<close>

theorem factorization_failure_not_raised:
  "(\<forall>s. no_throw (computePrimalDual s))
   \<and> (\<forall>P s. no_throw (computeDirection P False s))
   \<and> (\<forall>llt n. case direction_retry ex_problem (Suc n) True (ex_start\<lparr>kkt_llt := llt\<rparr>) of
         Go (n', s') \<Rightarrow> n' = n \<and> xreg s' = Val 5 \<and> ureg s' = Val 5
       | Halt (Returned b s') \<Rightarrow> False
       | Halt Aborted \<Rightarrow> True
       | Halt (OutOfFuel s') \<Rightarrow> False)
   \<and> (case direction_retry ex_problem (Suc 0) True ex_start of
         Go (n, s') \<Rightarrow>
           n = 0 \<and> xreg s' = Val 5 \<and> ureg s' = Val 5
           \<and> map (\<lambda>i. map (mcoeff (kkt s') i) [0, 1, 2, 3, 4]) [0, 1, 2, 3, 4]
               = [[7, 0, 0, 1, - 1], [0, 7, 0, 0, 1], [0, 0, 7, 0, - 1], [1, 0, 0, 0, 0],
                  [- 1, 1, - 1, 0, 0]]
           \<and> (case bindE (mat_vec (kkt s') [0, 0, 0, 1, 0]) (dot [0, 0, 0, 1, 0]) of
                 Inr q \<Rightarrow> q = 0 | Inl e \<Rightarrow> False)
       | Halt out \<Rightarrow> False)
   \<and> (case iteration ex_problem (Suc 0) ex_start of
         Go (n, s') \<Rightarrow> n = 0 \<and> steplength s' = 1 \<and> xreg s' = Val (1 / 2) \<and> ureg s' = Val (1 / 2)
       | Halt out \<Rightarrow> False)"
proof (intro conjI allI)
  fix s show "no_throw (computePrimalDual s)" by (rule no_throw_computePrimalDual)
next
  fix P s show "no_throw (computeDirection P False s)"
    by (rule no_throw_computeDirection) simp
next
  fix llt n
  have "no_throw (computeDirection ex_problem True (ex_start\<lparr>kkt_llt := llt\<rparr>))"
    by (rule ex_problem_no_throw)
  from direction_retry_no_throw[OF this, of n]
  show "case direction_retry ex_problem (Suc n) True (ex_start\<lparr>kkt_llt := llt\<rparr>) of
         Go (n', s') \<Rightarrow> n' = n \<and> xreg s' = Val 5 \<and> ureg s' = Val 5
       | Halt (Returned b s') \<Rightarrow> False
       | Halt Aborted \<Rightarrow> True
       | Halt (OutOfFuel s') \<Rightarrow> False"
    using ex_start_regs[of llt] by (auto simp: regs_def simp del: direction_retry.simps)
next
  show "case direction_retry ex_problem (Suc 0) True ex_start of
         Go (n, s') \<Rightarrow>
           n = 0 \<and> xreg s' = Val 5 \<and> ureg s' = Val 5
           \<and> map (\<lambda>i. map (mcoeff (kkt s') i) [0, 1, 2, 3, 4]) [0, 1, 2, 3, 4]
               = [[7, 0, 0, 1, - 1], [0, 7, 0, 0, 1], [0, 0, 7, 0, - 1], [1, 0, 0, 0, 0],
                  [- 1, 1, - 1, 0, 0]]
           \<and> (case bindE (mat_vec (kkt s') [0, 0, 0, 1, 0]) (dot [0, 0, 0, 1, 0]) of
                 Inr q \<Rightarrow> q = 0 | Inl e \<Rightarrow> False)
       | Halt out \<Rightarrow> False"
    by (rule ex_not_positive_definite)
next
  show "case iteration ex_problem (Suc 0) ex_start of
         Go (n, s') \<Rightarrow> n = 0 \<and> steplength s' = 1 \<and> xreg s' = Val (1 / 2) \<and> ureg s' = Val (1 / 2)
       | Halt out \<Rightarrow> False"
    by (rule ex_iteration_decreases)
qed

section \<open>tryStep\<close>

text \<open>
  Claim C2 at a failing input: the example solver with the states \<open>(1), (3)\<close>, the state
  directions \<open>(-2), (-6)\<close> and the step length 1. \<^verbatim>\<open>tryStep\<close> writes the integration of the
  state of stage 0 with its direction, \<open>(-1)\<close>, into the trial state of stage 1, and leaves
  the trial state of stage 0 as it was; the trial control of stage 0 is the control plus
  the direction.
\<close>

theorem tryStep_shifts_states:
  "(case tryStep ex_problem 1 ex_dir of
      Inr (dv, s') \<Rightarrow> xs_try s' = [[1], [- 1]] \<and> us_try s' = [[- 1]]
    | Inl e \<Rightarrow> False)
   \<and> xs_try ex_dir = [[1], [0]]
   \<and> state_integrate (running_models ex_problem ! 0) (xs ex_dir ! 0) (vec_scale 1 (dxs ex_dir ! 0)) = [- 1]
   \<and> state_integrate (terminal_model ex_problem) (xs ex_dir ! 1) (vec_scale 1 (dxs ex_dir ! 1)) = [- 3]"
  by (simp add: tryStep_def tryStep_stage_def ex_dir_def ex_start_def solve_init_def setCandidate_def
      ex_solver_def SolverKKT_def allocateData_def ex_base_def ex_problem_def ex_model_def ex_data_def
      ex_cost_def mat11_def get_T_def for_loop.simps nth_chk_def update_chk_def vec_add_def vec_scale_def
      Let_def)

lemma mat_coupled_refl:
  "mrows K' = mrows K \<Longrightarrow> mcols K' = mcols K \<Longrightarrow> mat_coupled (\<lambda>i j. False) K K' K K'"
  by (simp add: mat_coupled_def)

lemma vec_coupled_refl: "length v' = length v \<Longrightarrow> vec_coupled v v' v v'"
  by (simp add: vec_coupled_def)

lemma mat_coupled_mono:
  "mat_coupled W K K' A A' \<Longrightarrow> (\<And>i j. W' i j \<Longrightarrow> W i j) \<Longrightarrow> mat_coupled W' K K' A A'"
  unfolding mat_coupled_def by blast

lemma mat_coupled_set_block:
  assumes "mat_coupled W K K' A A'" and "set_block A i j p q B = Inr A2"
  shows "\<exists>A2'. set_block A' i j p q B = Inr A2'
           \<and> mat_coupled (\<lambda>r c. W r c \<or> in_block i j p q r c) K K' A2 A2'"
proof -
  let ?f = "\<lambda>M. M\<lparr>mcoeff := (\<lambda>r c. if in_block i j p q r c then mcoeff B (r - i) (c - j)
                                     else mcoeff M r c)\<rparr>"
  from assms(2) have c: "i + p \<le> mrows A \<and> j + q \<le> mcols A \<and> mrows B = p \<and> mcols B = q"
    and A2: "A2 = ?f A"
    by (auto simp: set_block_def split: if_splits)
  from assms(1) have d: "mrows A = mrows K" "mcols A = mcols K" "mrows A' = mrows K" "mcols A' = mcols K"
    by (auto simp: mat_coupled_def)
  have s: "set_block A' i j p q B = Inr (?f A')"
    using c d by (simp add: set_block_def)
  have "\<And>r c. mcoeff (?f A) r c = mcoeff (?f A') r c
           \<or> (mcoeff (?f A) r c = mcoeff K r c \<and> mcoeff (?f A') r c = mcoeff K' r c
               \<and> \<not> (W r c \<or> in_block i j p q r c))"
  proof -
    fix r c
    from assms(1) have "mcoeff A r c = mcoeff A' r c
        \<or> (mcoeff A r c = mcoeff K r c \<and> mcoeff A' r c = mcoeff K' r c \<and> \<not> W r c)"
      unfolding mat_coupled_def by blast
    then show "mcoeff (?f A) r c = mcoeff (?f A') r c
           \<or> (mcoeff (?f A) r c = mcoeff K r c \<and> mcoeff (?f A') r c = mcoeff K' r c
               \<and> \<not> (W r c \<or> in_block i j p q r c))"
      by (cases "in_block i j p q r c") auto
  qed
  then have "mat_coupled (\<lambda>r c. W r c \<or> in_block i j p q r c) K K' (?f A) (?f A')"
    unfolding mat_coupled_def using d by simp
  with s A2 show ?thesis by blast
qed

lemma vec_coupled_set_segment:
  assumes "vec_coupled v v' a a'" and "set_segment a i n w = Inr a2"
  shows "\<exists>a2'. set_segment a' i n w = Inr a2' \<and> vec_coupled v v' a2 a2'"
proof -
  let ?f = "\<lambda>u. map (\<lambda>k. if i \<le> k \<and> k < i + n then w ! (k - i) else u ! k) [0..<length v]"
  from assms(1) have d: "length a = length v" "length a' = length v"
    and p: "\<And>k. k < length v \<Longrightarrow> a ! k = a' ! k \<or> (a ! k = v ! k \<and> a' ! k = v' ! k)"
    by (auto simp: vec_coupled_def)
  from assms(2) d have c: "i + n \<le> length v \<and> length w = n" and a2: "a2 = ?f a"
    by (auto simp: set_segment_def split: if_splits)
  have s: "set_segment a' i n w = Inr (?f a')"
    using c d by (simp add: set_segment_def)
  have "vec_coupled v v' (?f a) (?f a')"
    unfolding vec_coupled_def using p by auto
  with s a2 show ?thesis by blast
qed

lemma calc_stage_coupled:
  assumes run: "calc_stage P D X n_dx n_u cx0 t (ix, iu, A, a) = Inr y"
    and cm: "mat_coupled W K K' A A'" and cv: "vec_coupled v v' a a'"
  shows "\<exists>A2 a2 A2' a2'.
      y = (ix + get_ndx (running_models P ! t), iu + get_nu (running_models P ! t), A2, a2)
    \<and> calc_stage P D X n_dx n_u cx0 t (ix, iu, A', a')
        = Inr (ix + get_ndx (running_models P ! t), iu + get_nu (running_models P ! t), A2', a2')
    \<and> mat_coupled (\<lambda>i j. W i j \<or> (i = j \<and> (ix \<le> i \<and> i < ix + get_ndx (running_models P ! t)
                        \<or> n_dx + iu \<le> i \<and> i < n_dx + iu + get_nu (running_models P ! t))))
         K K' A2 A2'
    \<and> vec_coupled v v' a2 a2'"
proof -
  let ?n = "get_ndx (running_models P ! t)" and ?m = "get_nu (running_models P ! t)"
  let ?md = "running_models P ! t"
  from run obtain dt a1 A1 A2 A3 A4 A5 A6 a2 a3 x a4 where
    dt: "nth_chk (running_datas D) t = (Inr dt :: adata result)"
    and a1: "(if t = 0 then bindE (nth_chk X 0) (\<lambda>x. set_segment a (n_dx + n_u) ?n (state_diff ?md (get_x0 P) x))
              else Inr a) = (Inr a1 :: vec result)"
    and A1: "set_block A ix ix ?n ?n (get_Lxx dt) = (Inr A1 :: mat result)"
    and A2: "set_block A1 ix (n_dx + iu) ?n ?m (get_Lxu dt) = (Inr A2 :: mat result)"
    and A3: "set_block A2 (n_dx + iu) ix ?m ?n (mat_transpose (get_Lxu dt)) = (Inr A3 :: mat result)"
    and A4: "set_block A3 (n_dx + iu) (n_dx + iu) ?m ?m (get_Luu dt) = (Inr A4 :: mat result)"
    and A5: "set_block A4 (n_dx + n_u + cx0 + ix) ix ?n ?n (mat_neg (get_Fx dt)) = (Inr A5 :: mat result)"
    and A6: "set_block A5 (n_dx + n_u + cx0 + ix) (n_dx + iu) ?n ?m (mat_neg (get_Fu dt)) = (Inr A6 :: mat result)"
    and a2: "set_segment a1 ix ?n (get_Lx dt) = (Inr a2 :: vec result)"
    and a3: "set_segment a2 (n_dx + iu) ?m (get_Lu dt) = (Inr a3 :: vec result)"
    and x: "nth_chk X (t + 1) = (Inr x :: vec result)"
    and a4: "set_segment a3 (n_dx + n_u + cx0 + ix) ?n (state_diff ?md (get_xnext dt) x) = (Inr a4 :: vec result)"
    and y: "y = (ix + ?n, iu + ?m, A6, a4)"
    unfolding calc_stage_def by (auto simp: bindE_eq_Inr Let_def)
  have "\<exists>a1'. (if t = 0 then bindE (nth_chk X 0) (\<lambda>x. set_segment a' (n_dx + n_u) ?n (state_diff ?md (get_x0 P) x))
              else Inr a') = (Inr a1' :: vec result) \<and> vec_coupled v v' a1 a1'"
  proof (cases "t = 0")
    case True
    with a1 obtain x0 where "nth_chk X 0 = (Inr x0 :: vec result)"
      and "set_segment a (n_dx + n_u) ?n (state_diff ?md (get_x0 P) x0) = (Inr a1 :: vec result)"
      by (auto simp: bindE_eq_Inr)
    with vec_coupled_set_segment[OF cv this(2)] True show ?thesis by (auto simp: bindE_eq_Inr)
  next
    case False
    with a1 cv show ?thesis by auto
  qed
  then obtain a1' where a1': "(if t = 0 then bindE (nth_chk X 0) (\<lambda>x. set_segment a' (n_dx + n_u) ?n (state_diff ?md (get_x0 P) x))
              else Inr a') = (Inr a1' :: vec result)" and c1: "vec_coupled v v' a1 a1'"
    by blast
  from mat_coupled_set_block[OF cm A1] obtain A1' where
    A1': "set_block A' ix ix ?n ?n (get_Lxx dt) = (Inr A1' :: mat result)"
    and m1: "mat_coupled (\<lambda>r c. W r c \<or> in_block ix ix ?n ?n r c) K K' A1 A1'" by blast
  from mat_coupled_set_block[OF m1 A2] obtain A2' where
    A2': "set_block A1' ix (n_dx + iu) ?n ?m (get_Lxu dt) = (Inr A2' :: mat result)"
    and m2: "mat_coupled (\<lambda>r c. (W r c \<or> in_block ix ix ?n ?n r c) \<or> in_block ix (n_dx + iu) ?n ?m r c) K K' A2 A2'"
    by blast
  from mat_coupled_set_block[OF m2 A3] obtain A3' where
    A3': "set_block A2' (n_dx + iu) ix ?m ?n (mat_transpose (get_Lxu dt)) = (Inr A3' :: mat result)"
    and m3: "mat_coupled (\<lambda>r c. ((W r c \<or> in_block ix ix ?n ?n r c) \<or> in_block ix (n_dx + iu) ?n ?m r c)
                \<or> in_block (n_dx + iu) ix ?m ?n r c) K K' A3 A3'"
    by blast
  from mat_coupled_set_block[OF m3 A4] obtain A4' where
    A4': "set_block A3' (n_dx + iu) (n_dx + iu) ?m ?m (get_Luu dt) = (Inr A4' :: mat result)"
    and m4: "mat_coupled (\<lambda>r c. (((W r c \<or> in_block ix ix ?n ?n r c) \<or> in_block ix (n_dx + iu) ?n ?m r c)
                \<or> in_block (n_dx + iu) ix ?m ?n r c) \<or> in_block (n_dx + iu) (n_dx + iu) ?m ?m r c) K K' A4 A4'"
    by blast
  have m4': "mat_coupled (\<lambda>i j. W i j \<or> (i = j \<and> (ix \<le> i \<and> i < ix + ?n \<or> n_dx + iu \<le> i \<and> i < n_dx + iu + ?m)))
               K K' A4 A4'"
    by (rule mat_coupled_mono[OF m4]) (auto simp: in_block_def)
  from mat_coupled_set_block[OF m4' A5] obtain A5' where
    A5': "set_block A4' (n_dx + n_u + cx0 + ix) ix ?n ?n (mat_neg (get_Fx dt)) = (Inr A5' :: mat result)"
    and m5: "mat_coupled (\<lambda>r c. (W r c \<or> (r = c \<and> (ix \<le> r \<and> r < ix + ?n \<or> n_dx + iu \<le> r \<and> r < n_dx + iu + ?m)))
                \<or> in_block (n_dx + n_u + cx0 + ix) ix ?n ?n r c) K K' A5 A5'"
    by blast
  from mat_coupled_set_block[OF m5 A6] obtain A6' where
    A6': "set_block A5' (n_dx + n_u + cx0 + ix) (n_dx + iu) ?n ?m (mat_neg (get_Fu dt)) = (Inr A6' :: mat result)"
    and m6: "mat_coupled (\<lambda>r c. ((W r c \<or> (r = c \<and> (ix \<le> r \<and> r < ix + ?n \<or> n_dx + iu \<le> r \<and> r < n_dx + iu + ?m)))
                \<or> in_block (n_dx + n_u + cx0 + ix) ix ?n ?n r c)
                \<or> in_block (n_dx + n_u + cx0 + ix) (n_dx + iu) ?n ?m r c) K K' A6 A6'"
    by blast
  have m6': "mat_coupled (\<lambda>i j. W i j \<or> (i = j \<and> (ix \<le> i \<and> i < ix + ?n \<or> n_dx + iu \<le> i \<and> i < n_dx + iu + ?m)))
               K K' A6 A6'"
    by (rule mat_coupled_mono[OF m6]) auto
  from vec_coupled_set_segment[OF c1 a2] obtain a2' where
    a2': "set_segment a1' ix ?n (get_Lx dt) = (Inr a2' :: vec result)" and c2: "vec_coupled v v' a2 a2'"
    by blast
  from vec_coupled_set_segment[OF c2 a3] obtain a3' where
    a3': "set_segment a2' (n_dx + iu) ?m (get_Lu dt) = (Inr a3' :: vec result)" and c3: "vec_coupled v v' a3 a3'"
    by blast
  from vec_coupled_set_segment[OF c3 a4] obtain a4' where
    a4': "set_segment a3' (n_dx + n_u + cx0 + ix) ?n (state_diff ?md (get_xnext dt) x) = (Inr a4' :: vec result)"
    and c4: "vec_coupled v v' a4 a4'"
    by blast
  have "calc_stage P D X n_dx n_u cx0 t (ix, iu, A', a') = Inr (ix + ?n, iu + ?m, A6', a4')"
    unfolding calc_stage_def using dt a1' A1' A2' A3' A4' A5' A6' a2' a3' x a4'
    by (simp add: Let_def)
  with y m6' c4 show ?thesis by blast
qed

lemma for_loop_rule2:
  assumes "for_loop t T body a = Inr b" and "t \<le> T" and "R t a a'"
    and "\<And>k x x' y. t \<le> k \<Longrightarrow> k < T \<Longrightarrow> R k x x' \<Longrightarrow> body k x = Inr y
           \<Longrightarrow> \<exists>y'. body k x' = Inr y' \<and> R (Suc k) y y'"
  shows "\<exists>b'. for_loop t T body a' = Inr b' \<and> R T b b'"
  using assms
proof (induction t T body a arbitrary: a' rule: for_loop.induct)
  case (1 t T body a)
  show ?case
  proof (cases "t < T")
    case False
    with "1.prems" show ?thesis by (simp add: for_loop.simps)
  next
    case True
    then obtain y where y: "body t a = Inr y" and rest: "for_loop (t + 1) T body y = Inr b"
      using "1.prems"(1) by (subst (asm) for_loop.simps) (auto split: sum.splits)
    from "1.prems"(4)[OF _ True "1.prems"(3) y] obtain y' where
      y': "body t a' = Inr y'" and R: "R (Suc t) y y'" by auto
    have "\<exists>b'. for_loop (t + 1) T body y' = Inr b' \<and> R T b b'"
    proof (rule "1.IH"[OF True y rest])
      show "t + 1 \<le> T" using True by simp
      show "R (t + 1) y y'" using R by simp
    next
      fix k x x' z
      assume "t + 1 \<le> k" "k < T" "R k x x'" "body k x = Inr z"
      then show "\<exists>y'. body k x' = Inr y' \<and> R (Suc k) z y'"
        using "1.prems"(4)[of k x x' z] by simp
    qed
    then show ?thesis using True y' by (subst for_loop.simps) simp
  qed
qed

lemma calc_loop_coupled:
  assumes run: "calc_loop P D X n_dx n_u cx0 (0, 0, A, a) = Inr (ix, iu, A2, a2)"
    and cm: "mat_coupled W K K' A A'" and cv: "vec_coupled v v' a a'"
  shows "ix = sum_list (map get_ndx (running_models P)) \<and> iu = sum_list (map get_nu (running_models P))
    \<and> (\<exists>A2' a2'. calc_loop P D X n_dx n_u cx0 (0, 0, A', a') = Inr (ix, iu, A2', a2')
          \<and> mat_coupled (\<lambda>i j. W i j \<or> (i = j \<and> (i < ix \<or> n_dx \<le> i \<and> i < n_dx + iu))) K K' A2 A2'
          \<and> vec_coupled v v' a2 a2')"
proof -
  let ?ms = "running_models P"
  let ?R = "\<lambda>k y y'. case y of (jx, ju, B, b) \<Rightarrow> (case y' of (jx', ju', B', b') \<Rightarrow>
      jx' = jx \<and> ju' = ju \<and> jx = sum_list (map get_ndx (take k ?ms)) \<and> ju = sum_list (map get_nu (take k ?ms))
      \<and> mat_coupled (\<lambda>i j. W i j \<or> (i = j \<and> (i < jx \<or> n_dx \<le> i \<and> i < n_dx + ju))) K K' B B'
      \<and> vec_coupled v v' b b')"
  have "\<exists>b'. for_loop 0 (get_T P) (calc_stage P D X n_dx n_u cx0) (0, 0, A', a') = Inr b'
          \<and> ?R (get_T P) (ix, iu, A2, a2) b'"
  proof (rule for_loop_rule2[where R = ?R, OF run[unfolded calc_loop_def]])
    show "0 \<le> get_T P" by simp
    have "mat_coupled (\<lambda>i j. W i j \<or> (i = j \<and> (i < 0 \<or> n_dx \<le> i \<and> i < n_dx + 0))) K K' A A'"
      by (rule mat_coupled_mono[OF cm]) auto
    then show "?R 0 (0, 0, A, a) (0, 0, A', a')"
      using cv by simp
  next
    fix k x x' y
    assume k: "k < get_T P" and R: "?R k x x'" and b: "calc_stage P D X n_dx n_u cx0 k x = Inr y"
    obtain jx ju B b0 where x: "x = (jx, ju, B, b0)" by (cases x)
    obtain jx' ju' B' b0' where x': "x' = (jx', ju', B', b0')" by (cases x')
    let ?n = "get_ndx (?ms ! k)" and ?m = "get_nu (?ms ! k)"
    from R x x' have e: "jx' = jx" "ju' = ju"
      and sx: "jx = sum_list (map get_ndx (take k ?ms))" and su: "ju = sum_list (map get_nu (take k ?ms))"
      and mB: "mat_coupled (\<lambda>i j. W i j \<or> (i = j \<and> (i < jx \<or> n_dx \<le> i \<and> i < n_dx + ju))) K K' B B'"
      and vb: "vec_coupled v v' b0 b0'"
      by auto
    from calc_stage_coupled[OF b[unfolded x] mB vb] obtain B2 b2 B2' b2' where
      y: "y = (jx + ?n, ju + ?m, B2, b2)"
      and r': "calc_stage P D X n_dx n_u cx0 k (jx, ju, B', b0') = Inr (jx + ?n, ju + ?m, B2', b2')"
      and m2: "mat_coupled (\<lambda>i j. (W i j \<or> (i = j \<and> (i < jx \<or> n_dx \<le> i \<and> i < n_dx + ju)))
                  \<or> (i = j \<and> (jx \<le> i \<and> i < jx + ?n \<or> n_dx + ju \<le> i \<and> i < n_dx + ju + ?m)))
               K K' B2 B2'"
      and v2: "vec_coupled v v' b2 b2'"
      by blast
    have m2': "mat_coupled (\<lambda>i j. W i j \<or> (i = j \<and> (i < jx + ?n \<or> n_dx \<le> i \<and> i < n_dx + (ju + ?m)))) K K' B2 B2'"
      by (rule mat_coupled_mono[OF m2]) auto
    have kk: "k < length ?ms" using k by (simp add: get_T_def)
    have tk: "take (Suc k) ?ms = take k ?ms @ [?ms ! k]" using kk by (simp add: take_Suc_conv_app_nth)
    show "\<exists>y'. calc_stage P D X n_dx n_u cx0 k x' = Inr y' \<and> ?R (Suc k) y y'"
      using r' y m2' v2 sx su e x' by (simp add: tk)
  qed
  then obtain A2' a2' where
    "for_loop 0 (get_T P) (calc_stage P D X n_dx n_u cx0) (0, 0, A', a') = Inr (ix, iu, A2', a2')"
    and "?R (get_T P) (ix, iu, A2, a2) (ix, iu, A2', a2')"
    by auto
  then show ?thesis by (auto simp: calc_loop_def get_T_def)
qed

lemma set_block_dims:
  "set_block M i j p q B = Inr M2 \<Longrightarrow> mrows M2 = mrows M \<and> mcols M2 = mcols M"
  by (auto simp: set_block_def split: if_splits)

lemma calc_finish:
  assumes B: "block KT n 0 nd n = Inr B"
    and X: "set_block KT 0 n n nd (mat_transpose B) = Inr KX"
    and R: "add_xreg s KX = Inr KR" and U: "add_ureg s KR = Inr KU"
    and nd: "ndx s = nd" and n: "n = nd + nu s"
  shows "mrows KU = mrows KT \<and> mcols KU = mcols KT \<and> n + nd \<le> mrows KT \<and> n + nd \<le> mcols KT
    \<and> (\<forall>r c. mcoeff KU r c
          = (if in_block 0 n n nd r c then mcoeff KT c r else mcoeff KT r c)
            + (case xreg s of NaN \<Rightarrow> 0 | Val x \<Rightarrow> if r = c \<and> r < nd then x else 0)
            + (case ureg s of NaN \<Rightarrow> 0 | Val u \<Rightarrow> if r = c \<and> nd \<le> r \<and> r < n then u else 0))"
proof -
  from B have b: "n + nd \<le> mrows KT" "n \<le> mcols KT"
    and B': "B = \<lparr>mrows = nd, mcols = n, mcoeff = (\<lambda>r c. mcoeff KT (n + r) (0 + c))\<rparr>"
    by (auto simp: block_def split: if_splits)
  from X have x: "n + nd \<le> mcols KT"
    and X': "KX = KT\<lparr>mcoeff := (\<lambda>r c. if in_block 0 n n nd r c then mcoeff (mat_transpose B) (r - 0) (c - n)
                                     else mcoeff KT r c)\<rparr>"
    by (auto simp: set_block_def split: if_splits)
  have X'': "\<And>r c. mcoeff KX r c = (if in_block 0 n n nd r c then mcoeff KT c r else mcoeff KT r c)"
    unfolding X' B' by (auto simp: mat_transpose_def in_block_def)
  have dX: "mrows KX = mrows KT" "mcols KX = mcols KT" using X' by simp_all
  from R have dR: "mrows KR = mrows KX" "mcols KR = mcols KX"
    and R': "\<And>r c. mcoeff KR r c = mcoeff KX r c
               + (case xreg s of NaN \<Rightarrow> 0 | Val x \<Rightarrow> if r = c \<and> r < nd then x else 0)"
    using nd by (auto simp: add_xreg_def add_diagonal_def split: if_splits dbl.splits)
  from U have dU: "mrows KU = mrows KR" "mcols KU = mcols KR"
    and U': "\<And>r c. mcoeff KU r c = mcoeff KR r c
               + (case ureg s of NaN \<Rightarrow> 0 | Val u \<Rightarrow> if r = c \<and> nd \<le> r \<and> r < n then u else 0)"
    using nd n by (auto simp: add_ureg_def add_diagonal_def split: if_splits dbl.splits)
  show ?thesis
    using b x dX dR dU by (simp add: U' R' X'')
qed

lemma calc_finish_total:
  assumes "n + nd \<le> mrows KT" and "n + nd \<le> mcols KT" and nd: "ndx s = nd" and n: "n = nd + nu s"
  shows "\<exists>B KX KR KU. block KT n 0 nd n = (Inr B :: mat result)
     \<and> set_block KT 0 n n nd (mat_transpose B) = (Inr KX :: mat result)
     \<and> add_xreg s KX = Inr KR \<and> add_ureg s KR = Inr KU"
  using assms
  by (auto simp: block_def set_block_def mat_transpose_def add_xreg_def add_ureg_def add_diagonal_def
      split: dbl.splits)

lemma calc_assemble_twice:
  assumes nd: "ndx s = sum_list (map get_ndx (running_models P)) + get_ndx (terminal_model P)"
    and nuu: "nu s = sum_list (map get_nu (running_models P))"
    and run: "calc_assemble P D s = Inr (K1, r1)"
  shows "calc_assemble P D (s\<lparr>kkt := K1, kktref := r1\<rparr>) = Inr (K1, r1)"
proof -
  let ?n = "ndx s + nu s" and ?nf = "get_ndx (terminal_model P)"
  let ?s' = "s\<lparr>kkt := K1, kktref := r1\<rparr>"
  from run obtain m0 ms where ms: "running_models P = m0 # ms"
    unfolding calc_assemble_def by (auto split: list.splits)
  let ?cx0 = "get_ndx m0"
  from run ms obtain KI ix iu KL rL KT B KX KR where
    KI: "set_block (kkt s) ?n 0 (ndx s) (ndx s) (mat_identity (ndx s) (ndx s)) = (Inr KI :: mat result)"
    and L: "calc_loop P D (xs s) (ndx s) (nu s) ?cx0 (0, 0, KI, kktref s) = Inr (ix, iu, KL, rL)"
    and KT: "set_block KL ix ix ?nf ?nf (get_Lxx (terminal_data D)) = (Inr KT :: mat result)"
    and rT: "set_segment rL ix ?nf (get_Lx (terminal_data D)) = (Inr r1 :: vec result)"
    and B: "block KT ?n 0 (ndx s) ?n = (Inr B :: mat result)"
    and KX: "set_block KT 0 ?n ?n (ndx s) (mat_transpose B) = (Inr KX :: mat result)"
    and KR: "add_xreg s KX = Inr KR" and KU: "add_ureg s KR = Inr K1"
    unfolding calc_assemble_def by (auto simp: bindE_eq_Inr Let_def split: prod.splits)
  have fin: "mrows K1 = mrows KT \<and> mcols K1 = mcols KT \<and> ?n + ndx s \<le> mrows KT \<and> ?n + ndx s \<le> mcols KT
    \<and> (\<forall>r c. mcoeff K1 r c
          = (if in_block 0 ?n ?n (ndx s) r c then mcoeff KT c r else mcoeff KT r c)
            + (case xreg s of NaN \<Rightarrow> 0 | Val x \<Rightarrow> if r = c \<and> r < ndx s then x else 0)
            + (case ureg s of NaN \<Rightarrow> 0 | Val u \<Rightarrow> if r = c \<and> ndx s \<le> r \<and> r < ?n then u else 0))"
    by (rule calc_finish[OF B KX KR KU]) simp_all
  have bnd: "?n + ndx s \<le> mrows KT" "?n + ndx s \<le> mcols KT"
    and dK1: "mrows K1 = mrows KT" "mcols K1 = mcols KT"
    and F: "\<And>r c. mcoeff K1 r c
          = (if in_block 0 ?n ?n (ndx s) r c then mcoeff KT c r else mcoeff KT r c)
            + (case xreg s of NaN \<Rightarrow> 0 | Val x \<Rightarrow> if r = c \<and> r < ndx s then x else 0)
            + (case ureg s of NaN \<Rightarrow> 0 | Val u \<Rightarrow> if r = c \<and> ndx s \<le> r \<and> r < ?n then u else 0)"
    using fin by blast+
  have dKI: "mrows KI = mrows (kkt s)" "mcols KI = mcols (kkt s)" using set_block_dims[OF KI] by auto
  note first = calc_loop_coupled[OF L mat_coupled_refl[of KI KI] vec_coupled_refl[of "kktref s" "kktref s"]]
  have c0: "mat_coupled (\<lambda>i j. False) (kkt s) K1 (kkt s) K1"
  proof (rule mat_coupled_refl)
    have "mrows KT = mrows (kkt s) \<and> mcols KT = mcols (kkt s)"
      using set_block_dims[OF KT] dKI first by (auto simp: mat_coupled_def)
    with dK1 show "mrows K1 = mrows (kkt s)" "mcols K1 = mcols (kkt s)" by auto
  qed
  have lr: "length r1 = length (kktref s)"
  proof -
    from first have "length rL = length (kktref s)" by (auto simp: vec_coupled_def)
    with rT show ?thesis by (auto simp: set_segment_def split: if_splits)
  qed
  have v0: "vec_coupled (kktref s) r1 (kktref s) r1" using lr by (rule vec_coupled_refl)
  \<comment> \<open>the second run, from the buffers the first run left\<close>
  from mat_coupled_set_block[OF c0 KI] obtain KI' where
    KI': "set_block K1 ?n 0 (ndx s) (ndx s) (mat_identity (ndx s) (ndx s)) = (Inr KI' :: mat result)"
    and c1: "mat_coupled (\<lambda>r c. False \<or> in_block ?n 0 (ndx s) (ndx s) r c) (kkt s) K1 KI KI'"
    by blast
  from calc_loop_coupled[OF L c1 v0] obtain KL' rL' where
    ix: "ix = sum_list (map get_ndx (running_models P))" and iu: "iu = sum_list (map get_nu (running_models P))"
    and L': "calc_loop P D (xs s) (ndx s) (nu s) ?cx0 (0, 0, KI', r1) = Inr (ix, iu, KL', rL')"
    and c2: "mat_coupled (\<lambda>i j. (False \<or> in_block ?n 0 (ndx s) (ndx s) i j)
                \<or> (i = j \<and> (i < ix \<or> ndx s \<le> i \<and> i < ndx s + iu))) (kkt s) K1 KL KL'"
    and v2: "vec_coupled (kktref s) r1 rL rL'"
    by blast
  from mat_coupled_set_block[OF c2 KT] obtain KT' where
    KT': "set_block KL' ix ix ?nf ?nf (get_Lxx (terminal_data D)) = (Inr KT' :: mat result)"
    and c3: "mat_coupled (\<lambda>r c. ((False \<or> in_block ?n 0 (ndx s) (ndx s) r c)
                \<or> (r = c \<and> (r < ix \<or> ndx s \<le> r \<and> r < ndx s + iu))) \<or> in_block ix ix ?nf ?nf r c)
              (kkt s) K1 KT KT'"
    by blast
  have c3': "mat_coupled (\<lambda>r c. r = c \<and> r < ?n) (kkt s) K1 KT KT'"
    by (rule mat_coupled_mono[OF c3]) (use nd nuu ix iu in \<open>auto simp: in_block_def\<close>)
  from vec_coupled_set_segment[OF v2 rT] obtain r1' where
    rT': "set_segment rL' ix ?nf (get_Lx (terminal_data D)) = (Inr r1' :: vec result)"
    and v3: "vec_coupled (kktref s) r1 r1 r1'"
    by blast
  have r1': "r1' = r1"
    using v3 lr by (auto simp: vec_coupled_def intro!: nth_equalityI)
  have dT': "mrows KT' = mrows KT" "mcols KT' = mcols KT"
    using c3' by (auto simp: mat_coupled_def)
  have xr: "xreg ?s' = xreg s" "ureg ?s' = ureg s" by simp_all
  have "\<exists>B KX KR KU. block KT' ?n 0 (ndx s) ?n = (Inr B :: mat result)
     \<and> set_block KT' 0 ?n ?n (ndx s) (mat_transpose B) = (Inr KX :: mat result)
     \<and> add_xreg ?s' KX = Inr KR \<and> add_ureg ?s' KR = Inr KU"
    by (rule calc_finish_total) (use bnd dT' in simp_all)
  then obtain B' KX' KR' KU' where
    B': "block KT' ?n 0 (ndx s) ?n = (Inr B' :: mat result)"
    and KX': "set_block KT' 0 ?n ?n (ndx s) (mat_transpose B') = (Inr KX' :: mat result)"
    and KR': "add_xreg ?s' KX' = Inr KR'" and KU': "add_ureg ?s' KR' = Inr KU'"
    by blast
  have fin': "mrows KU' = mrows KT' \<and> mcols KU' = mcols KT' \<and> ?n + ndx s \<le> mrows KT' \<and> ?n + ndx s \<le> mcols KT'
    \<and> (\<forall>r c. mcoeff KU' r c
          = (if in_block 0 ?n ?n (ndx s) r c then mcoeff KT' c r else mcoeff KT' r c)
            + (case xreg ?s' of NaN \<Rightarrow> 0 | Val x \<Rightarrow> if r = c \<and> r < ndx s then x else 0)
            + (case ureg ?s' of NaN \<Rightarrow> 0 | Val u \<Rightarrow> if r = c \<and> ndx s \<le> r \<and> r < ?n then u else 0))"
    by (rule calc_finish[OF B' KX' KR' KU']) simp_all
  have dKU': "mrows KU' = mrows KT'" "mcols KU' = mcols KT'"
    and F': "\<And>r c. mcoeff KU' r c
          = (if in_block 0 ?n ?n (ndx s) r c then mcoeff KT' c r else mcoeff KT' r c)
            + (case xreg s of NaN \<Rightarrow> 0 | Val x \<Rightarrow> if r = c \<and> r < ndx s then x else 0)
            + (case ureg s of NaN \<Rightarrow> 0 | Val u \<Rightarrow> if r = c \<and> ndx s \<le> r \<and> r < ?n then u else 0)"
    using fin'[unfolded xr] by blast+
  have cp: "\<And>r c. mcoeff KT r c = mcoeff KT' r c
              \<or> (mcoeff KT' r c = mcoeff K1 r c \<and> \<not> (r = c \<and> r < ?n))"
    using c3' unfolding mat_coupled_def by blast
  have low: "\<And>r c. ?n \<le> r \<Longrightarrow> mcoeff KT' r c = mcoeff KT r c"
  proof -
    fix r c assume r: "?n \<le> r"
    have nb: "\<not> in_block 0 ?n ?n (ndx s) r c" using r by (simp add: in_block_def)
    have "mcoeff K1 r c = mcoeff KT r c"
      unfolding F[of r c] using r nb by (simp split: dbl.splits)
    with cp[of r c] show "mcoeff KT' r c = mcoeff KT r c" by auto
  qed
  have eq: "\<And>r c. mcoeff KU' r c = mcoeff K1 r c"
  proof -
    fix r c
    show "mcoeff KU' r c = mcoeff K1 r c"
    proof (cases "in_block 0 ?n ?n (ndx s) r c")
      case True
      then have "?n \<le> c" by (simp add: in_block_def)
      from low[OF this, of r] True show ?thesis unfolding F[of r c] F'[of r c] by simp
    next
      case False
      from cp[of r c] show ?thesis
      proof
        assume "mcoeff KT r c = mcoeff KT' r c"
        with False show ?thesis unfolding F[of r c] F'[of r c] by simp
      next
        assume a: "mcoeff KT' r c = mcoeff K1 r c \<and> \<not> (r = c \<and> r < ?n)"
        then have z: "(case xreg s of NaN \<Rightarrow> 0 | Val x \<Rightarrow> if r = c \<and> r < ndx s then x else (0::real)) = 0"
          "(case ureg s of NaN \<Rightarrow> 0 | Val u \<Rightarrow> if r = c \<and> ndx s \<le> r \<and> r < ?n then u else (0::real)) = 0"
          by (auto split: dbl.splits)
        have "mcoeff KU' r c = mcoeff KT' r c" unfolding F'[of r c] using False z by simp
        with a show ?thesis by simp
      qed
    qed
  qed
  have "KU' = K1"
  proof (rule mat.equality)
    show "mrows KU' = mrows K1" "mcols KU' = mcols K1" using dK1 dKU' dT' by auto
    show "mcoeff KU' = mcoeff K1" using eq by (intro ext)
  qed simp
  then show ?thesis
    unfolding calc_assemble_def using ms KI' L' KT' rT' r1' B' KX' KR' KU'
    by (simp add: Let_def)
qed

lemma calc_datas:
  assumes "calc P s = Inr s1"
  shows "\<exists>D c K r. problem_calcDiff P (xs s) (us s) (datas s) = (D, Inr c)
    \<and> calc_assemble P D (s\<lparr>datas := D, cost := c\<rparr>) = Inr (K, r)
    \<and> s1 = s\<lparr>datas := D, cost := c, kkt := K, kktref := r\<rparr>"
  using assms unfolding calc_def
  by (auto simp: bindE_eq_Inr split: prod.splits sum.splits)

section \<open>calc\<close>

text \<open>
  Claim C4. On a solver with the sizes \<^verbatim>\<open>allocateData\<close> leaves, when \<^verbatim>\<open>calc\<close> has returned and
  the problem gives the same data and cost for the same trajectory again, a second call
  of \<^verbatim>\<open>calc\<close> returns and leaves the state the first call left: the same \<^verbatim>\<open>kkt_\<close>, the same
  \<^verbatim>\<open>kktref_\<close>, the same cost. The regularization does not add up, since the diagonal
  blocks of the stages cover the diagonal of the cost block.
\<close>

theorem calc_twice:
  assumes "allocated P s" and "calc P s = Inr s1"
    and "problem_calcDiff P (xs s) (us s) (datas s1) = (datas s1, Inr (cost s1))"
  shows "calc P s1 = Inr s1"
proof -
  from calc_datas[OF assms(2)] obtain D c K r where
    a: "calc_assemble P D (s\<lparr>datas := D, cost := c\<rparr>) = Inr (K, r)"
    and s1: "s1 = s\<lparr>datas := D, cost := c, kkt := K, kktref := r\<rparr>"
    by blast
  let ?s0 = "s\<lparr>datas := D, cost := c\<rparr>"
  have "calc_assemble P D (?s0\<lparr>kkt := K, kktref := r\<rparr>) = Inr (K, r)"
    using assms(1) by (intro calc_assemble_twice[OF _ _ a]) (simp_all add: allocated_def)
  moreover have "s1\<lparr>datas := D, cost := c\<rparr> = ?s0\<lparr>kkt := K, kktref := r\<rparr>" unfolding s1 by simp
  ultimately have b: "calc_assemble P D (s1\<lparr>datas := D, cost := c\<rparr>) = Inr (K, r)" by simp
  have x: "xs s1 = xs s" "us s1 = us s" "datas s1 = D" "cost s1 = c"
    unfolding s1 by simp_all
  have e: "s1\<lparr>datas := D, cost := c, kkt := K, kktref := r\<rparr> = s1" unfolding s1 by simp
  show ?thesis
    unfolding calc_def using assms(3) b x e by simp
qed

lemma calc_ex:
  "case calc ex_problem ex_start of
     Inr s1 \<Rightarrow> mcoeff (kkt s1) 0 0 = 7 \<and> mcoeff (kkt s1) 2 2 = 7 \<and> mcoeff (kkt s1) 4 0 = - 1
               \<and> mcoeff (kkt s1) 0 4 = - 1 \<and> mcoeff (kkt s1) 3 0 = 1
               \<and> kktref s1 = [2, 6, 2, 0, 1] \<and> cost s1 = 11
   | Inl e \<Rightarrow> False"
  by code_simp

lemma ex_problem_calcDiff:
  "problem_calcDiff ex_problem X U D = problem_calcDiff ex_problem X U D'"
  by (simp add: ex_problem_def)

theorem calc_twice_witness:
  "allocated ex_problem ex_start
   \<and> (\<exists>s1. calc ex_problem ex_start = Inr s1
         \<and> problem_calcDiff ex_problem (xs ex_start) (us ex_start) (datas s1) = (datas s1, Inr (cost s1))
         \<and> calc ex_problem s1 = Inr s1
         \<and> mcoeff (kkt s1) 0 0 = 7 \<and> kktref s1 = [2, 6, 2, 0, 1])"
proof -
  obtain s1 where s1: "calc ex_problem ex_start = Inr s1"
    using calc_ex by (cases "calc ex_problem ex_start") simp_all
  have v: "mcoeff (kkt s1) 0 0 = 7" "kktref s1 = [2, 6, 2, 0, 1]"
    using calc_ex unfolding s1 by simp_all
  from calc_datas[OF s1] obtain D c K r where
    d: "problem_calcDiff ex_problem (xs ex_start) (us ex_start) (datas ex_start) = (D, Inr c)"
    and e: "s1 = ex_start\<lparr>datas := D, cost := c, kkt := K, kktref := r\<rparr>"
    by blast
  have "datas s1 = D" "cost s1 = c" unfolding e by simp_all
  with d have det: "problem_calcDiff ex_problem (xs ex_start) (us ex_start) (datas s1) = (datas s1, Inr (cost s1))"
    using ex_problem_calcDiff[of "xs ex_start" "us ex_start" "datas s1" "datas ex_start"] by simp
  have "calc ex_problem s1 = Inr s1"
    using ex_start_allocated s1 det by (rule calc_twice)
  with s1 det v ex_start_allocated show ?thesis
    by (intro conjI exI[of _ s1]) simp_all
qed

end
